theory Spec2Isabelle
  imports Main "HOL-Library.Word" "HOL-Library.Monad_Syntax"
begin

unbundle bit_operations_syntax

section \<open>The persistent RAM console (drivers/staging/android/ram_console.c)\<close>

text \<open>
  The driver keeps a ring buffer of console text in a reserved memory region, optionally
  protected by Reed-Solomon parity, and recovers the previous boot's text when it is
  initialised. The embedding follows the C text function by function.

  Integer types. \<open>uint32_t\<close>, \<open>unsigned int\<close> and \<open>size_t\<close> are 32-bit words: the tree
  is built for 32-bit ARM boards, where \<open>size_t\<close> is \<open>unsigned int\<close>. Pointers into the
  region are offsets (\<open>nat\<close>) from \<open>buffer->data\<close>. A read or write outside the region,
  which is undefined behaviour in C, and a loop that does not end are the result \<open>None\<close>.
\<close>

type_synonym byte = "8 word"
type_synonym u16 = "16 word"
type_synonym u32 = "32 word"
type_synonym size_t = "32 word"

subsection \<open>Configuration and external code\<close>

text \<open>
  \<open>CONFIG_ANDROID_RAM_CONSOLE_ERROR_CORRECTION\<close> selects at build time whether the
  parity code is compiled. The configuration is \<open>None\<close> when it is unset. When it is set,
  the Kconfig constants and the Reed-Solomon library (\<open>linux/rslib.h\<close>), which are not
  part of the driver, are parameters:
  \<^item> \<open>encode_rs8 data par\<close> is the parity array after \<open>encode_rs8(rs, data, len, par, 0)\<close>;
  \<^item> \<open>decode_rs8 data par\<close> is the return value of \<open>decode_rs8\<close> (the number of corrected
    symbols, negative when the block cannot be corrected) and the block after the
    correction in place;
  \<^item> \<open>init_rs_ok\<close> tells whether \<open>init_rs\<close> returns a codec rather than \<open>NULL\<close>.
\<close>

record ecc =
  ECC_BLOCK_SIZE :: nat
  ECC_SIZE :: nat
  encode_rs8 :: "byte list \<Rightarrow> u16 list \<Rightarrow> u16 list"
  decode_rs8 :: "byte list \<Rightarrow> u16 list \<Rightarrow> int \<times> byte list"
  init_rs_ok :: bool

subsection \<open>The region and the module's globals\<close>

text \<open>
  \<open>struct ram_console_buffer\<close>: three 32-bit fields and the flexible array \<open>data\<close>, which
  is every byte of the region after the 12-byte header (the log data, then the parity
  table when there is one).
\<close>

record ram_console_buffer =
  sig :: u32
  start :: u32
  size_f :: u32
  data :: "byte list"

definition RAM_CONSOLE_SIG :: u32 where
  "RAM_CONSOLE_SIG = 0x43474244"

text \<open>
  The static variables of the module. \<open>buffer\<close> is the region \<open>ram_console_buffer\<close> points
  to; \<open>ram_console_par_buffer\<close> is kept as its offset from \<open>buffer->data\<close>;
  \<open>ram_console_old_log\<close> is \<open>None\<close> for \<open>NULL\<close>; \<open>registered\<close> records that
  \<open>register_console(&ram_console)\<close> has been called.
\<close>

record globals =
  buffer :: ram_console_buffer
  ram_console_buffer_size :: size_t
  ram_console_par_buffer :: nat
  ram_console_rs_decoder :: bool
  ram_console_corrected_bytes :: int
  ram_console_bad_blocks :: int
  ram_console_old_log :: "byte list option"
  ram_console_old_log_size :: size_t
  registered :: bool

subsection \<open>Memory access\<close>

text \<open>\<open>memcpy(dst + off, src, n)\<close>; \<open>None\<close> when it reads or writes out of bounds.\<close>

definition memcpy :: "byte list \<Rightarrow> nat \<Rightarrow> byte list \<Rightarrow> nat \<Rightarrow> byte list option" where
  "memcpy dst off src n =
     (if off + n \<le> length dst \<and> n \<le> length src
      then Some (take off dst @ take n src @ drop (off + n) dst)
      else None)"

text \<open>Reading \<open>n\<close> bytes at \<open>mem + off\<close>.\<close>

definition peek :: "byte list \<Rightarrow> nat \<Rightarrow> nat \<Rightarrow> byte list option" where
  "peek mem off n = (if off + n \<le> length mem then Some (take n (drop off mem)) else None)"

text \<open>The header as the 12 bytes it occupies (little endian), and back.\<close>

definition le32 :: "u32 \<Rightarrow> byte list" where
  "le32 w = [ucast w, ucast (drop_bit 8 w), ucast (drop_bit 16 w), ucast (drop_bit 24 w)]"

definition of_le32 :: "byte list \<Rightarrow> u32" where
  "of_le32 bs = (ucast (bs ! 0)) OR push_bit 8 (ucast (bs ! 1))
                OR push_bit 16 (ucast (bs ! 2)) OR push_bit 24 (ucast (bs ! 3))"

definition header_bytes :: "ram_console_buffer \<Rightarrow> byte list" where
  "header_bytes b = le32 (sig b) @ le32 (start b) @ le32 (size_f b)"

definition set_header_bytes :: "byte list \<Rightarrow> ram_console_buffer \<Rightarrow> ram_console_buffer" where
  "set_header_bytes bs b =
     b\<lparr>sig := of_le32 (take 4 bs), start := of_le32 (take 4 (drop 4 bs)),
       size_f := of_le32 (take 4 (drop 8 bs))\<rparr>"

subsection \<open>Parity encoding\<close>

text \<open>
  \<open>ram_console_encode_rs8(data, len, ecc)\<close>: \<open>data\<close> and \<open>ecc\<close> are offsets into the array,
  \<open>len\<close> is the C \<open>int\<close> that the caller passes; converted to \<open>size_t\<close>, a negative \<open>len\<close>
  is a read far beyond the region.
\<close>

definition ram_console_encode_bytes :: "ecc \<Rightarrow> byte list \<Rightarrow> byte list" where
  "ram_console_encode_bytes e bytes =
     (let par = encode_rs8 e bytes (replicate (ECC_SIZE e) 0)
      in map (\<lambda>i. ucast (par ! i)) [0..<ECC_SIZE e])"

definition ram_console_encode_rs8 ::
    "ecc \<Rightarrow> byte list \<Rightarrow> nat \<Rightarrow> int \<Rightarrow> nat \<Rightarrow> byte list option" where
  "ram_console_encode_rs8 e mem block len par =
     (if len < 0 then None
      else do {
        bytes \<leftarrow> peek mem block (nat len);
        let out = ram_console_encode_bytes e bytes;
        memcpy mem par out (ECC_SIZE e)
      })"

text \<open>
  The \<open>do ... while\<close> loop of \<open>ram_console_update\<close>. \<open>lim\<close> is
  \<open>buffer->data + buffer->start + count\<close>. With a block size of 0 the pointer does not
  advance and the loop does not end.
\<close>

function update_loop ::
    "ecc \<Rightarrow> nat \<Rightarrow> nat \<Rightarrow> nat \<Rightarrow> nat \<Rightarrow> int \<Rightarrow> byte list \<Rightarrow> byte list option" where
  "update_loop e buffer_end lim block par sz mem =
     (let sz' = (if block + ECC_BLOCK_SIZE e > buffer_end
                 then int buffer_end - int block else sz)
      in do {
        mem' \<leftarrow> ram_console_encode_rs8 e mem block sz' par;
        if block + ECC_BLOCK_SIZE e < lim
        then (if ECC_BLOCK_SIZE e = 0 then None
              else update_loop e buffer_end lim (block + ECC_BLOCK_SIZE e)
                     (par + ECC_SIZE e) sz' mem')
        else Some mem'
      })"
  by pat_completeness auto
termination
  by (relation "measure (\<lambda>(e, buffer_end, lim, block, par, sz, mem). lim - block)") auto

declare update_loop.simps [simp del]

subsection \<open>Writing\<close>

definition ram_console_update ::
    "ecc option \<Rightarrow> globals \<Rightarrow> byte list \<Rightarrow> u32 \<Rightarrow> globals option" where
  "ram_console_update cfg g s count =
     (let b = buffer g;
          buffer_end = unat (ram_console_buffer_size g)
      in do {
        d \<leftarrow> memcpy (data b) (unat (start b)) s (unat count);
        d' \<leftarrow> (case cfg of
                 None \<Rightarrow> Some d
               | Some e \<Rightarrow>
                   if ECC_BLOCK_SIZE e = 0 then None
                   else update_loop e buffer_end (unat (start b) + unat count)
                     (unat (start b AND NOT (of_nat (ECC_BLOCK_SIZE e) - 1)))
                     (ram_console_par_buffer g
                        + unat (start b div of_nat (ECC_BLOCK_SIZE e) * of_nat (ECC_SIZE e)))
                     (int (ECC_BLOCK_SIZE e)) d);
        Some (g\<lparr>buffer := b\<lparr>data := d'\<rparr>\<rparr>)
      })"

text \<open>\<open>DIV_ROUND_UP(n, d)\<close> is \<open>((n) + (d) - 1) / (d)\<close>, here in \<open>size_t\<close> arithmetic.\<close>

definition DIV_ROUND_UP :: "size_t \<Rightarrow> size_t \<Rightarrow> size_t" where
  "DIV_ROUND_UP n d = (n + d - 1) div d"

definition header_par :: "ecc \<Rightarrow> globals \<Rightarrow> nat" where
  "header_par e g =
     ram_console_par_buffer g
       + unat (DIV_ROUND_UP (ram_console_buffer_size g) (of_nat (ECC_BLOCK_SIZE e))
               * of_nat (ECC_SIZE e))"

definition ram_console_update_header :: "ecc option \<Rightarrow> globals \<Rightarrow> globals option" where
  "ram_console_update_header cfg g =
     (case cfg of
        None \<Rightarrow> Some g
      | Some e \<Rightarrow>
         if ECC_BLOCK_SIZE e = 0 then None
         else do {
          d \<leftarrow> memcpy (data (buffer g)) (header_par e g)
                 (ram_console_encode_bytes e (header_bytes (buffer g))) (ECC_SIZE e);
          Some (g\<lparr>buffer := (buffer g)\<lparr>data := d\<rparr>\<rparr>)
        })"

text \<open>
  \<open>ram_console_write(console, s, count)\<close>. \<open>s\<close> is the caller's text, of which \<open>count\<close> bytes
  are to be written. \<open>rem\<close> is declared \<open>int\<close>, but it is only compared with, passed as and
  subtracted from \<open>unsigned int\<close> values, so it acts as the 32-bit word it was computed as.
\<close>

definition ram_console_write ::
    "ecc option \<Rightarrow> globals \<Rightarrow> byte list \<Rightarrow> u32 \<Rightarrow> globals option" where
  "ram_console_write cfg g s0 count0 =
     (let bs = ram_console_buffer_size g;
          (s, count) = (if count0 > bs then (drop (unat (count0 - bs)) s0, bs)
                        else (s0, count0));
          rem = bs - start (buffer g)
      in do {
        (g1, s1, count1) \<leftarrow>
          (if rem < count
           then do {
             g' \<leftarrow> ram_console_update cfg g s rem;
             Some (g'\<lparr>buffer := (buffer g')\<lparr>start := 0, size_f := bs\<rparr>\<rparr>,
                   drop (unat rem) s, count - rem)
           }
           else Some (g, s, count));
        g2 \<leftarrow> ram_console_update cfg g1 s1 count1;
        let b2 = buffer g2;
            b3 = b2\<lparr>start := start b2 + count1\<rparr>;
            b4 = (if size_f b3 < bs then b3\<lparr>size_f := size_f b3 + count1\<rparr> else b3)
        in ram_console_update_header cfg (g2\<lparr>buffer := b4\<rparr>)
      })"

subsection \<open>Parity decoding and the recovery of the old log\<close>

definition ram_console_decode_bytes :: "ecc \<Rightarrow> byte list \<Rightarrow> byte list \<Rightarrow> int \<times> byte list" where
  "ram_console_decode_bytes e bytes ecc_bytes =
     decode_rs8 e bytes (map (\<lambda>i. ucast (ecc_bytes ! i)) [0..<ECC_SIZE e])"

text \<open>
  \<open>ram_console_decode_rs8(data, len, ecc)\<close> on a block of the array: the error count and
  the array after the correction in place.
\<close>

definition ram_console_decode_rs8 ::
    "ecc \<Rightarrow> byte list \<Rightarrow> nat \<Rightarrow> int \<Rightarrow> nat \<Rightarrow> (int \<times> byte list) option" where
  "ram_console_decode_rs8 e mem block len par =
     (if len < 0 then None
      else do {
        bytes \<leftarrow> peek mem block (nat len);
        ecc_bytes \<leftarrow> peek mem par (ECC_SIZE e);
        let (numerr, bytes') = ram_console_decode_bytes e bytes ecc_bytes;
        mem' \<leftarrow> memcpy mem block bytes' (nat len);
        Some (numerr, mem')
      })"

text \<open>
  The \<open>while\<close> loop of \<open>ram_console_save_old\<close> over the blocks below \<open>buffer->size\<close>; the
  state is the array and the two counters.
\<close>

function decode_loop ::
    "ecc \<Rightarrow> nat \<Rightarrow> nat \<Rightarrow> nat \<Rightarrow> nat \<Rightarrow> byte list \<times> int \<times> int
       \<Rightarrow> (byte list \<times> int \<times> int) option" where
  "decode_loop e buffer_end lim block par (mem, cb, bb) =
     (if block < lim
      then (let sz = (if block + ECC_BLOCK_SIZE e > buffer_end
                      then int buffer_end - int block else int (ECC_BLOCK_SIZE e))
            in do {
              (numerr, mem') \<leftarrow> ram_console_decode_rs8 e mem block sz par;
              let cb' = (if numerr > 0 then cb + numerr else cb);
                  bb' = (if numerr > 0 then bb else if numerr < 0 then bb + 1 else bb)
              in if ECC_BLOCK_SIZE e = 0 then None
                 else decode_loop e buffer_end lim (block + ECC_BLOCK_SIZE e)
                        (par + ECC_SIZE e) (mem', cb', bb')
            })
      else Some (mem, cb, bb))"
  by pat_completeness auto
termination
  by (relation "measure (\<lambda>(e, buffer_end, lim, block, par, st). lim - block)") auto

declare decode_loop.simps [simp del]

text \<open>\<open>%d\<close> of \<open>snprintf\<close>, and the text as bytes.\<close>

function dec_nat :: "nat \<Rightarrow> string" where
  "dec_nat n = (if n < 10 then [char_of (48 + n)]
                else dec_nat (n div 10) @ [char_of (48 + n mod 10)])"
  by pat_completeness auto
termination
  by (relation "measure id") auto

declare dec_nat.simps [simp del]

definition dec_int :: "int \<Rightarrow> string" where
  "dec_int i = (if i < 0 then CHR ''-'' # dec_nat (nat (- i)) else dec_nat (nat i))"

definition bytes_of :: "string \<Rightarrow> byte list" where
  "bytes_of cs = map (\<lambda>c. of_nat (of_char c)) cs"

text \<open>
  The diagnostic line that \<open>ram_console_save_old\<close> formats into \<open>strbuf[80]\<close>: the first
  \<open>strbuf_len\<close> bytes of the buffer, where \<open>strbuf_len\<close> is cut to 79.
\<close>

definition strbuf :: "int \<Rightarrow> int \<Rightarrow> byte list" where
  "strbuf cb bb =
     take 79 (bytes_of
       (if cb \<noteq> 0 \<or> bb \<noteq> 0
        then CHR 0x0A # dec_int cb @ '' Corrected bytes, '' @ dec_int bb
               @ '' unrecoverable blocks'' @ [CHR 0x0A]
        else CHR 0x0A # ''No errors detected'' @ [CHR 0x0A]))"

text \<open>
  \<open>ram_console_save_old(buffer, dest)\<close>. \<open>kmalloc_ok\<close> tells whether \<open>kmalloc\<close> returns
  memory; \<open>dest\<close> is the caller's buffer, \<open>None\<close> for \<open>NULL\<close>.
\<close>

definition ram_console_save_old ::
    "ecc option \<Rightarrow> bool \<Rightarrow> globals \<Rightarrow> byte list option \<Rightarrow> globals option" where
  "ram_console_save_old cfg kmalloc_ok g dest =
     (let old_log_size = size_f (buffer g) in
      do {
        (g1, sb) \<leftarrow>
          (case cfg of
             None \<Rightarrow> Some (g, [])
           | Some e \<Rightarrow> do {
               (mem, cb, bb) \<leftarrow>
                 decode_loop e (unat (ram_console_buffer_size g)) (unat (size_f (buffer g)))
                   0 (ram_console_par_buffer g)
                   (data (buffer g), ram_console_corrected_bytes g, ram_console_bad_blocks g);
               Some (g\<lparr>buffer := (buffer g)\<lparr>data := mem\<rparr>,
                       ram_console_corrected_bytes := cb, ram_console_bad_blocks := bb\<rparr>,
                     strbuf cb bb)
             });
        let total_size = old_log_size + of_nat (length sb);
            b = buffer g1
        in case (case dest of
                   None \<Rightarrow> if kmalloc_ok then Some (replicate (unat total_size) 0) else None
                 | Some buf \<Rightarrow> Some buf) of
             None \<Rightarrow> Some g1
           | Some d0 \<Rightarrow> do {
               d1 \<leftarrow> memcpy d0 0 (drop (unat (start b)) (data b))
                      (unat (size_f b - start b));
               d2 \<leftarrow> memcpy d1 (unat (size_f b) - unat (start b)) (data b) (unat (start b));
               d3 \<leftarrow> memcpy d2 (unat old_log_size) sb (length sb);
               Some (g1\<lparr>ram_console_old_log := Some d3,
                        ram_console_old_log_size := total_size\<rparr>)
             }
      })"

subsection \<open>Initialisation\<close>

text \<open>
  \<open>ram_console_init(buffer, buffer_size, old_buf)\<close>: the return value and the globals.
  \<open>sizeof(struct ram_console_buffer)\<close> is 12. The subtractions are in \<open>size_t\<close> and wrap;
  the comparison with \<open>buffer_size\<close> after each is the driver's test for that.
\<close>

definition init_finish ::
    "ecc option \<Rightarrow> bool \<Rightarrow> globals \<Rightarrow> byte list option \<Rightarrow> (int \<times> globals) option" where
  "init_finish cfg kmalloc_ok g old_buf =
     do {
       g' \<leftarrow> (if sig (buffer g) = RAM_CONSOLE_SIG
               then (if size_f (buffer g) > ram_console_buffer_size g
                        \<or> start (buffer g) > size_f (buffer g)
                     then Some g
                     else ram_console_save_old cfg kmalloc_ok g old_buf)
               else Some g);
       Some (0, g'\<lparr>buffer := (buffer g')\<lparr>sig := RAM_CONSOLE_SIG, start := 0, size_f := 0\<rparr>,
                   registered := True\<rparr>)
     }"

definition ram_console_init ::
    "ecc option \<Rightarrow> bool \<Rightarrow> globals \<Rightarrow> ram_console_buffer \<Rightarrow> size_t \<Rightarrow> byte list option
       \<Rightarrow> (int \<times> globals) option" where
  "ram_console_init cfg kmalloc_ok g0 buf buffer_size old_buf =
     (let g1 = g0\<lparr>buffer := buf, ram_console_buffer_size := buffer_size - 12\<rparr>
      in if ram_console_buffer_size g1 > buffer_size then Some (0, g1)
         else case cfg of
           None \<Rightarrow> init_finish cfg kmalloc_ok g1 old_buf
         | Some e \<Rightarrow>
            if ECC_BLOCK_SIZE e = 0 then None
            else
            (let g2 = g1\<lparr>ram_console_buffer_size :=
                          ram_console_buffer_size g1
                            - (DIV_ROUND_UP (ram_console_buffer_size g1)
                                 (of_nat (ECC_BLOCK_SIZE e)) + 1) * of_nat (ECC_SIZE e)\<rparr>
             in if ram_console_buffer_size g2 > buffer_size then Some (0, g2)
                else
                 (let g3 = g2\<lparr>ram_console_par_buffer := unat (ram_console_buffer_size g2),
                              ram_console_rs_decoder := init_rs_ok e\<rparr>
                  in if \<not> ram_console_rs_decoder g3 then Some (0, g3)
                     else do {
                       let g4 = g3\<lparr>ram_console_corrected_bytes := 0,
                                   ram_console_bad_blocks := 0\<rparr>;
                       ecc_bytes \<leftarrow> peek (data (buffer g4)) (header_par e g4) (ECC_SIZE e);
                       let (numerr, hb) =
                             ram_console_decode_bytes e (header_bytes (buffer g4)) ecc_bytes;
                           g5 = g4\<lparr>buffer := set_header_bytes hb (buffer g4)\<rparr>;
                           g6 = (if numerr > 0
                                 then g5\<lparr>ram_console_corrected_bytes :=
                                           ram_console_corrected_bytes g5 + numerr\<rparr>
                                 else if numerr < 0
                                 then g5\<lparr>ram_console_bad_blocks :=
                                           ram_console_bad_blocks g5 + 1\<rparr>
                                 else g5)
                       in init_finish cfg kmalloc_ok g6 old_buf
                     })))"

subsection \<open>Reading the old log\<close>

text \<open>
  \<open>ram_console_read_old(file, buf, len, offset)\<close>: \<open>pos\<close> is the \<open>loff_t\<close> at \<open>*offset\<close>,
  \<open>user_ok\<close> tells whether \<open>copy_to_user\<close> succeeds. The result is the return value (an
  \<open>ssize_t\<close>), the bytes delivered to the caller and the new \<open>*offset\<close>. The globals are
  only read.
\<close>

definition EFAULT :: int where
  "EFAULT = 14"

definition ram_console_read_old ::
    "globals \<Rightarrow> bool \<Rightarrow> size_t \<Rightarrow> int \<Rightarrow> (int \<times> byte list \<times> int) option" where
  "ram_console_read_old g user_ok len pos =
     (if pos \<ge> uint (ram_console_old_log_size g) then Some (0, [], pos)
      else
        (let count = min len (word_of_int (uint (ram_console_old_log_size g) - pos))
         in if pos < 0 then None
            else case ram_console_old_log g of
              None \<Rightarrow> None
            | Some log \<Rightarrow> do {
                bytes \<leftarrow> peek log (nat pos) (unat count);
                if user_ok then Some (sint count, bytes, pos + sint count)
                else Some (- EFAULT, [], pos)
              }))"

subsection \<open>The platform probe\<close>

record resource =
  res_start :: size_t
  res_end :: size_t
  res_flags :: u32

text \<open>
  What the probe reads of the platform device: whether it has a device-tree node, the
  \<open>mem_size\<close> of its platform data if it has any, \<open>pdev->resource\<close>, and what
  \<open>platform_get_resource(pdev, IORESOURCE_MEM, 0)\<close> returns.
\<close>

record platform_device =
  of_node :: bool
  platform_data :: "size_t option"
  pdev_resource :: "resource option"
  mem_resource :: "resource option"

definition IORESOURCE_MEM :: u32 where
  "IORESOURCE_MEM = 0x00000200"

definition PAGE_SIZE :: size_t where
  "PAGE_SIZE = 4096"

definition EINVAL :: int where
  "EINVAL = 22"

definition ENXIO :: int where
  "ENXIO = 6"

definition ENOMEM :: int where
  "ENOMEM = 12"

text \<open>\<open>ramoops_parse_dt\<close>: the error or the new \<open>g_res\<close> and the \<open>mem_size\<close> it stores.\<close>

definition ramoops_parse_dt :: "platform_device \<Rightarrow> int + (resource \<times> size_t)" where
  "ramoops_parse_dt pdev =
     (case mem_resource pdev of
        None \<Rightarrow> Inl (- EINVAL)
      | Some r \<Rightarrow> Inr (r, res_end r - res_start r + 1))"

text \<open>
  \<open>ram_console_driver_probe\<close>, in three parts: the resource and platform data it ends
  up with (\<open>probe_resources\<close>), its checks of them, and the mapping of the region and the
  call of \<open>ram_console_init\<close> (\<open>probe_map\<close>). \<open>ioremap start size\<close> is the mapped region,
  \<open>None\<close> for \<open>NULL\<close>.
\<close>

definition probe_resources :: "platform_device \<Rightarrow> int + (resource option \<times> size_t option)" where
  "probe_resources pdev =
     (if of_node pdev \<and> platform_data pdev = None
      then (case ramoops_parse_dt pdev of
              Inl err \<Rightarrow> Inl err
            | Inr (r, msz) \<Rightarrow> Inr (Some r, Some msz))
      else Inr (pdev_resource pdev, platform_data pdev))"

definition probe_map ::
    "ecc option \<Rightarrow> bool \<Rightarrow> (size_t \<Rightarrow> size_t \<Rightarrow> ram_console_buffer option) \<Rightarrow> globals
       \<Rightarrow> resource \<Rightarrow> (int \<times> globals) option" where
  "probe_map cfg kmalloc_ok ioremap g r =
     (if res_flags r AND IORESOURCE_MEM = 0 then Some (- ENXIO, g)
      else (let buffer_size = (res_end r - res_start r + 1) - PAGE_SIZE * 10
            in case ioremap (res_start r) buffer_size of
                 None \<Rightarrow> Some (- ENOMEM, g)
               | Some buf \<Rightarrow> ram_console_init cfg kmalloc_ok g buf buffer_size None))"

definition ram_console_driver_probe ::
    "ecc option \<Rightarrow> bool \<Rightarrow> (size_t \<Rightarrow> size_t \<Rightarrow> ram_console_buffer option) \<Rightarrow> globals
       \<Rightarrow> platform_device \<Rightarrow> (int \<times> globals) option" where
  "ram_console_driver_probe cfg kmalloc_ok ioremap g pdev =
     (case probe_resources pdev of
        Inl err \<Rightarrow> Some (err, g)
      | Inr (g_res, None) \<Rightarrow> Some (- ENXIO, g)
      | Inr (g_res, Some mem_size) \<Rightarrow>
          if mem_size = 0 then Some (- ENOMEM, g)
          else (case g_res of
                  None \<Rightarrow> Some (- ENXIO, g)
                | Some r \<Rightarrow> probe_map cfg kmalloc_ok ioremap g r))"

section \<open>Terms of the specification\<close>

subsection \<open>Well-formed configurations and regions\<close>

text \<open>\<open>ceil(c / B)\<close>, the number of blocks of \<open>B\<close> bytes that cover \<open>c\<close> bytes.\<close>

definition nblocks :: "nat \<Rightarrow> nat \<Rightarrow> nat" where
  "nblocks B c = (c + B - 1) div B"

text \<open>
  The block size is a power of two that fits an \<open>int\<close> (the driver aligns with
  \<open>start & ~(ECC_BLOCK_SIZE - 1)\<close>), and a parity segment is not empty.
\<close>

definition ecc_ok :: "ecc \<Rightarrow> bool" where
  "ecc_ok e = ((\<exists>k<31. ECC_BLOCK_SIZE e = 2 ^ k) \<and> 0 < ECC_SIZE e)"

text \<open>The decoder corrects a block in place: it returns a block of the same length.\<close>

definition decoder_ok :: "ecc option \<Rightarrow> bool" where
  "decoder_ok cfg =
     (case cfg of
        None \<Rightarrow> True
      | Some e \<Rightarrow> \<forall>d p. length (snd (decode_rs8 e d p)) = length d)"

text \<open>
  The layout that the write path relies on: the array holds the data area of
  \<open>ram_console_buffer_size\<close> bytes, and with parity the table starts right after it and
  has a segment for every block and one for the header, all inside the 32-bit address
  space.
\<close>

definition wf_layout :: "ecc option \<Rightarrow> globals \<Rightarrow> bool" where
  "wf_layout cfg g =
     (let cap = unat (ram_console_buffer_size g); n = length (data (buffer g))
      in case cfg of
           None \<Rightarrow> cap \<le> n
         | Some e \<Rightarrow>
             ecc_ok e \<and> ram_console_par_buffer g = cap
             \<and> cap + (nblocks (ECC_BLOCK_SIZE e) cap + 1) * ECC_SIZE e \<le> n
             \<and> n + ECC_BLOCK_SIZE e \<le> 2 ^ 32)"

text \<open>
  The parity reservation that \<open>ram_console_init\<close> subtracts from the \<open>c\<close> bytes left after
  the header, in exact arithmetic.
\<close>

definition reservation :: "ecc \<Rightarrow> nat \<Rightarrow> nat" where
  "reservation e c = (nblocks (ECC_BLOCK_SIZE e) c + 1) * ECC_SIZE e"

text \<open>
  A region of \<open>buffer_size\<close> bytes that is large enough for the header and the parity
  table, and whose parity table can be computed in 32 bits.
\<close>

definition region_ok :: "ecc option \<Rightarrow> ram_console_buffer \<Rightarrow> size_t \<Rightarrow> bool" where
  "region_ok cfg buf buffer_size =
     (12 \<le> unat buffer_size \<and> length (data buf) = unat buffer_size - 12
      \<and> (case cfg of
            None \<Rightarrow> True
          | Some e \<Rightarrow>
              ecc_ok e \<and> reservation e (unat buffer_size - 12) \<le> unat buffer_size - 12
              \<and> unat buffer_size - 12 + ECC_BLOCK_SIZE e \<le> 2 ^ 32
              \<and> unat buffer_size - 12 + 79 < 2 ^ 32))"

text \<open>
  A region that is too small: the header does not fit, or the parity reservation is more
  than what is left after the header.
\<close>

definition insufficient_capacity :: "ecc option \<Rightarrow> size_t \<Rightarrow> bool" where
  "insufficient_capacity cfg buffer_size =
     (unat buffer_size < 12
      \<or> (case cfg of
            None \<Rightarrow> False
          | Some e \<Rightarrow> unat buffer_size - 12 < reservation e (unat buffer_size - 12)))"

text \<open>
  The parity reservation can be computed in 32 bits: neither \<open>DIV_ROUND_UP\<close> nor the
  product wraps, and the result is not within 12 of \<open>2 ^ 32\<close>.
\<close>

definition reservation_fits :: "ecc option \<Rightarrow> size_t \<Rightarrow> bool" where
  "reservation_fits cfg buffer_size =
     (case cfg of
        None \<Rightarrow> True
      | Some e \<Rightarrow>
          ecc_ok e \<and> unat buffer_size - 12 + ECC_BLOCK_SIZE e \<le> 2 ^ 32
          \<and> reservation e (unat buffer_size - 12) + 12 < 2 ^ 32)"

text \<open>The codec is available: \<open>init_rs\<close> does not return \<open>NULL\<close>.\<close>

definition codec_ok :: "ecc option \<Rightarrow> bool" where
  "codec_ok cfg = (case cfg of None \<Rightarrow> True | Some e \<Rightarrow> init_rs_ok e)"

text \<open>
  The header is one that \<open>ram_console_init\<close> accepts as left by a previous boot, for a
  data capacity of \<open>cap\<close>.
\<close>

definition valid_header :: "ram_console_buffer \<Rightarrow> size_t \<Rightarrow> bool" where
  "valid_header b cap = (sig b = RAM_CONSOLE_SIG \<and> size_f b \<le> cap \<and> start b \<le> size_f b)"

text \<open>The data capacity that \<open>ram_console_init\<close> leaves in \<open>ram_console_buffer_size\<close>.\<close>

definition data_capacity :: "ecc option \<Rightarrow> size_t \<Rightarrow> nat" where
  "data_capacity cfg buffer_size =
     (case cfg of
        None \<Rightarrow> unat buffer_size - 12
      | Some e \<Rightarrow> unat buffer_size - 12 - reservation e (unat buffer_size - 12))"

text \<open>
  The header that \<open>ram_console_init\<close> tests: the region's header, after the decoder's
  correction of it when parity is compiled in.
\<close>

definition header_seen :: "ecc option \<Rightarrow> ram_console_buffer \<Rightarrow> size_t \<Rightarrow> ram_console_buffer" where
  "header_seen cfg buf buffer_size =
     (case cfg of
        None \<Rightarrow> buf
      | Some e \<Rightarrow>
          (let cap = data_capacity cfg buffer_size;
               par = cap + nblocks (ECC_BLOCK_SIZE e) cap * ECC_SIZE e
           in set_header_bytes
                (snd (ram_console_decode_bytes e (header_bytes buf)
                        (take (ECC_SIZE e) (drop par (data buf))))) buf))"

subsection \<open>The ring buffer\<close>

text \<open>
  The logical content: the \<open>size\<close> bytes that end at position \<open>start\<close>, read circularly in
  the data area.
\<close>

definition logical_content :: "globals \<Rightarrow> byte list" where
  "logical_content g =
     (let cap = unat (ram_console_buffer_size g);
          st = unat (start (buffer g));
          sz = unat (size_f (buffer g))
      in map (\<lambda>i. data (buffer g) ! ((st + cap - sz + i) mod cap)) [0..<sz])"

text \<open>A sequence of console writes, each of a whole byte sequence.\<close>

fun ram_console_writes :: "ecc option \<Rightarrow> globals \<Rightarrow> byte list list \<Rightarrow> globals option" where
  "ram_console_writes cfg g [] = Some g"
| "ram_console_writes cfg g (s # ss) =
     (case ram_console_write cfg g s (of_nat (length s)) of
        None \<Rightarrow> None
      | Some g' \<Rightarrow> ram_console_writes cfg g' ss)"

text \<open>
  The header of a live store: \<open>start\<close> is at most the capacity, and \<open>size\<close> is \<open>start\<close>
  until the first wrap and the capacity from then on.
\<close>

definition hdr_inv :: "globals \<Rightarrow> bool" where
  "hdr_inv g =
     (unat (start (buffer g)) \<le> unat (ram_console_buffer_size g)
      \<and> (size_f (buffer g) = start (buffer g)
          \<or> size_f (buffer g) = ram_console_buffer_size g))"

text \<open>The header invariants as the specification states them.\<close>

definition spec_hdr_inv :: "globals \<Rightarrow> bool" where
  "spec_hdr_inv g =
     (unat (start (buffer g)) < unat (ram_console_buffer_size g)
      \<and> unat (size_f (buffer g)) \<le> unat (ram_console_buffer_size g))"

text \<open>
  A store that holds the history \<open>h\<close> of all bytes written since it was initialised: its
  header is that of a live store, \<open>size\<close> counts the bytes of \<open>h\<close> up to the capacity, and
  the data area, read circularly up to \<open>start\<close>, ends with the last \<open>size\<close> bytes of \<open>h\<close>.
\<close>

definition holds :: "ecc option \<Rightarrow> globals \<Rightarrow> byte list \<Rightarrow> bool" where
  "holds cfg g h =
     (let cap = unat (ram_console_buffer_size g);
          st = unat (start (buffer g));
          sz = unat (size_f (buffer g))
      in wf_layout cfg g \<and> hdr_inv g \<and> sz = min (length h) cap
         \<and> drop (cap - sz) (rotate st (take cap (data (buffer g)))) = drop (length h - sz) h)"

text \<open>
  The effect of a write on lists: the input cut to its last \<open>cap\<close> bytes, the new \<open>start\<close>,
  and the new data area.
\<close>

definition clamp :: "nat \<Rightarrow> byte list \<Rightarrow> byte list" where
  "clamp cap s0 = drop (length s0 - cap) s0"

definition write_start :: "nat \<Rightarrow> nat \<Rightarrow> nat \<Rightarrow> nat" where
  "write_start cap st c = (if st + c \<le> cap then st + c else st + c - cap)"

definition write_data :: "nat \<Rightarrow> nat \<Rightarrow> byte list \<Rightarrow> byte list \<Rightarrow> byte list" where
  "write_data cap st dat s =
     (if st + length s \<le> cap then take st dat @ s @ drop (st + length s) dat
      else drop (cap - st) s @ drop (st + length s - cap) (take st dat) @ take (cap - st) s)"

subsection \<open>What a write may change\<close>

text \<open>
  The bytes of the parity table that one run of the loop of \<open>ram_console_update\<close> for
  \<open>n\<close> bytes at \<open>st\<close> leaves alone, the segment of the header, and the bytes of the parity
  table that a whole write leaves alone.
\<close>

definition loop_keeps :: "ecc option \<Rightarrow> nat \<Rightarrow> nat \<Rightarrow> nat \<Rightarrow> nat \<Rightarrow> bool" where
  "loop_keeps cfg cap st n i =
     (case cfg of
        None \<Rightarrow> True
      | Some e \<Rightarrow>
          i < cap + st div ECC_BLOCK_SIZE e * ECC_SIZE e
          \<or> (cap + st div ECC_BLOCK_SIZE e * ECC_SIZE e + ECC_SIZE e \<le> i
              \<and> st + n \<le> (i - cap) div ECC_SIZE e * ECC_BLOCK_SIZE e))"

definition hdr_slot :: "ecc option \<Rightarrow> nat \<Rightarrow> nat \<Rightarrow> bool" where
  "hdr_slot cfg cap i =
     (case cfg of
        None \<Rightarrow> False
      | Some e \<Rightarrow>
          cap + nblocks (ECC_BLOCK_SIZE e) cap * ECC_SIZE e \<le> i
          \<and> i < cap + nblocks (ECC_BLOCK_SIZE e) cap * ECC_SIZE e + ECC_SIZE e)"

definition write_keeps :: "ecc option \<Rightarrow> nat \<Rightarrow> nat \<Rightarrow> nat \<Rightarrow> nat \<Rightarrow> bool" where
  "write_keeps cfg cap st c i =
     (\<not> hdr_slot cfg cap i
      \<and> (if st + c \<le> cap then loop_keeps cfg cap st c i
          else loop_keeps cfg cap st (cap - st) i \<and> loop_keeps cfg cap 0 (st + c - cap) i))"

text \<open>
  In the words of the specification. Position \<open>x\<close> of the data area is one of the positions
  \<open>start .. start + n - 1\<close> taken circularly; block \<open>k\<close> intersects that range.
\<close>

definition written_pos :: "nat \<Rightarrow> nat \<Rightarrow> nat \<Rightarrow> nat \<Rightarrow> bool" where
  "written_pos cap st n x = (x < cap \<and> (\<exists>t<n. x = (st + t) mod cap))"

definition block_written :: "nat \<Rightarrow> nat \<Rightarrow> nat \<Rightarrow> nat \<Rightarrow> nat \<Rightarrow> bool" where
  "block_written B cap st n k =
     (\<exists>x<cap. k * B \<le> x \<and> x < k * B + B \<and> written_pos cap st n x)"

text \<open>
  Byte \<open>i\<close> of the array is one that a write of \<open>n\<close> bytes at \<open>st\<close> may change according to
  the specification: a written position of the data area, a byte of the parity segment of
  a block that intersects the written range, or a byte of the header's parity segment.
\<close>

definition spec_may_change :: "ecc option \<Rightarrow> nat \<Rightarrow> nat \<Rightarrow> nat \<Rightarrow> nat \<Rightarrow> bool" where
  "spec_may_change cfg cap st n i =
     (if i < cap then written_pos cap st n i
      else case cfg of
             None \<Rightarrow> False
           | Some e \<Rightarrow>
               (let k = (i - cap) div ECC_SIZE e
                in block_written (ECC_BLOCK_SIZE e) cap st n k
                   \<or> k = nblocks (ECC_BLOCK_SIZE e) cap))"

text \<open>
  The same with the parity segment at index \<open>st div ECC_BLOCK_SIZE\<close>, which the loop of
  \<open>ram_console_update\<close> always encodes again, also when the write does not reach into
  that block.
\<close>

definition may_change :: "ecc option \<Rightarrow> nat \<Rightarrow> nat \<Rightarrow> nat \<Rightarrow> nat \<Rightarrow> bool" where
  "may_change cfg cap st n i =
     (if i < cap then written_pos cap st n i
      else case cfg of
             None \<Rightarrow> False
           | Some e \<Rightarrow>
               (let k = (i - cap) div ECC_SIZE e
                in block_written (ECC_BLOCK_SIZE e) cap st n k
                   \<or> k = st div ECC_BLOCK_SIZE e
                   \<or> k = nblocks (ECC_BLOCK_SIZE e) cap))"

subsection \<open>Recovery\<close>

text \<open>\<open>xs[lo : hi]\<close>.\<close>

definition subrange :: "'a list \<Rightarrow> nat \<Rightarrow> nat \<Rightarrow> 'a list" where
  "subrange xs lo hi = take (hi - lo) (drop lo xs)"

text \<open>
  The diagnostic line that recovery appends (none without parity), and the most bytes it
  can have.
\<close>

definition trailer_max :: "ecc option \<Rightarrow> nat" where
  "trailer_max cfg = (case cfg of None \<Rightarrow> 0 | Some e \<Rightarrow> 79)"

definition trailer :: "ecc option \<Rightarrow> globals \<Rightarrow> byte list" where
  "trailer cfg g =
     (case cfg of
        None \<Rightarrow> []
      | Some e \<Rightarrow> strbuf (ram_console_corrected_bytes g) (ram_console_bad_blocks g))"

text \<open>
  The globals \<open>g'\<close> hold the log recovered for the header \<open>h\<close>: the first
  \<open>ram_console_old_log_size\<close> bytes of \<open>ram_console_old_log\<close> are \<open>data[p : p + (s - p)]\<close>,
  then \<open>data[0 : p]\<close>, then the diagnostic line, for \<open>p = start\<close> and \<open>s = size\<close> of \<open>h\<close>
  and the array \<open>data\<close> as it is after the decoding of its blocks.
\<close>

definition recovered :: "ecc option \<Rightarrow> ram_console_buffer \<Rightarrow> globals \<Rightarrow> bool" where
  "recovered cfg h g' =
     (\<exists>log. ram_console_old_log g' = Some log
        \<and> unat (ram_console_old_log_size g') = unat (size_f h) + length (trailer cfg g')
        \<and> take (unat (ram_console_old_log_size g')) log
            = subrange (data (buffer g')) (unat (start h))
                (unat (start h) + (unat (size_f h) - unat (start h)))
              @ subrange (data (buffer g')) 0 (unat (start h))
              @ trailer cfg g')"

text \<open>
  The recovered log that \<open>ram_console_read_old\<close> exposes: the first
  \<open>ram_console_old_log_size\<close> bytes at \<open>ram_console_old_log\<close>, which must be allocated; none
  when nothing was recovered.
\<close>

definition recovered_log :: "globals \<Rightarrow> byte list" where
  "recovered_log g =
     (case ram_console_old_log g of
        None \<Rightarrow> []
      | Some log \<Rightarrow> take (unat (ram_console_old_log_size g)) log)"

definition old_log_ok :: "globals \<Rightarrow> bool" where
  "old_log_ok g =
     (case ram_console_old_log g of
        None \<Rightarrow> ram_console_old_log_size g = 0
      | Some log \<Rightarrow> unat (ram_console_old_log_size g) \<le> length log)"

text \<open>
  The destination of the recovered log: \<open>kmalloc\<close>'s memory, or a buffer of the caller
  that is large enough for \<open>sz\<close> bytes and the diagnostic line.
\<close>

definition dest_ok :: "ecc option \<Rightarrow> nat \<Rightarrow> byte list option \<Rightarrow> bool" where
  "dest_ok cfg sz dest =
     (case dest of None \<Rightarrow> True | Some buf \<Rightarrow> sz + trailer_max cfg \<le> length buf)"

text \<open>
  What the decoder makes of the data area. Block \<open>k\<close> is the \<open>ECC_BLOCK_SIZE\<close> bytes at
  \<open>k * ECC_BLOCK_SIZE\<close>, cut at the end of the data area; its parity segment is the
  \<open>ECC_SIZE\<close> bytes at \<open>cap + k * ECC_SIZE\<close>; \<open>decoded_block\<close> is the count that the
  decoder returns for the two and the bytes it leaves in the block.
\<close>

definition block_bytes :: "ecc \<Rightarrow> nat \<Rightarrow> byte list \<Rightarrow> nat \<Rightarrow> byte list" where
  "block_bytes e cap dat k =
     take (min (ECC_BLOCK_SIZE e) (cap - k * ECC_BLOCK_SIZE e)) (drop (k * ECC_BLOCK_SIZE e) dat)"

definition parity_bytes :: "ecc \<Rightarrow> nat \<Rightarrow> byte list \<Rightarrow> nat \<Rightarrow> byte list" where
  "parity_bytes e cap dat k = take (ECC_SIZE e) (drop (cap + k * ECC_SIZE e) dat)"

definition decoded_block :: "ecc \<Rightarrow> nat \<Rightarrow> byte list \<Rightarrow> nat \<Rightarrow> int \<times> byte list" where
  "decoded_block e cap dat k =
     ram_console_decode_bytes e (block_bytes e cap dat k) (parity_bytes e cap dat k)"

text \<open>
  The array after \<open>ram_console_save_old\<close> has decoded the blocks that start below \<open>s\<close>,
  each from its bytes and its parity segment as they are in \<open>dat\<close>; the bytes that the
  decoder reports as corrected in them, and the number of blocks it gives up on.
\<close>

definition decoded_data :: "ecc option \<Rightarrow> nat \<Rightarrow> nat \<Rightarrow> byte list \<Rightarrow> byte list" where
  "decoded_data cfg cap s dat =
     (case cfg of
        None \<Rightarrow> dat
      | Some e \<Rightarrow>
          map (\<lambda>i. if i < cap \<and> i div ECC_BLOCK_SIZE e * ECC_BLOCK_SIZE e < s
                    then snd (decoded_block e cap dat (i div ECC_BLOCK_SIZE e))
                           ! (i mod ECC_BLOCK_SIZE e)
                    else dat ! i) [0..<length dat])"




subsection \<open>Example configurations\<close>

text \<open>The globals before the driver has run.\<close>

definition globals0 :: globals where
  "globals0 =
     \<lparr>buffer = \<lparr>sig = 0, start = 0, size_f = 0, data = []\<rparr>,
      ram_console_buffer_size = 0, ram_console_par_buffer = 0,
      ram_console_rs_decoder = False, ram_console_corrected_bytes = 0,
      ram_console_bad_blocks = 0, ram_console_old_log = None,
      ram_console_old_log_size = 0, registered = False\<rparr>"

text \<open>
  A small codec for examples: blocks of 4 bytes, 2 parity bytes that both hold the
  exclusive or of the block, and a decoder that finds no error.
\<close>

definition xor_ecc :: ecc where
  "xor_ecc =
     \<lparr>ECC_BLOCK_SIZE = 4, ECC_SIZE = 2,
      encode_rs8 = (\<lambda>d p. map (\<lambda>x. x XOR ucast (fold (XOR) d 0)) p),
      decode_rs8 = (\<lambda>d p. (0, d)),
      init_rs_ok = True\<rparr>"

text \<open>The same with the block and parity sizes of the kernel's default configuration.\<close>

definition xor_ecc_128 :: ecc where
  "xor_ecc_128 = xor_ecc\<lparr>ECC_BLOCK_SIZE := 128, ECC_SIZE := 16\<rparr>"

text \<open>A region whose header and bytes are arbitrary.\<close>

definition region :: "u32 \<Rightarrow> u32 \<Rightarrow> u32 \<Rightarrow> byte list \<Rightarrow> ram_console_buffer" where
  "region sg st sz bytes = \<lparr>sig = sg, start = st, size_f = sz, data = bytes\<rparr>"

text \<open>
  A store without parity in a region of 16 bytes (4 bytes of data), as
  \<open>ram_console_init\<close> leaves it.
\<close>

definition store4 :: globals where
  "store4 =
     globals0\<lparr>buffer := region RAM_CONSOLE_SIG 0 0 [0, 0, 0, 0],
              ram_console_buffer_size := 4, registered := True\<rparr>"

text \<open>
  Regions of 40 bytes (28 bytes after the header): one whose header is not a store's, and
  one whose header says that 9 bytes are valid and that the next write goes to position 3.
\<close>

definition region40 :: ram_console_buffer where
  "region40 = region 0 7 9 (replicate 28 0xEE)"

definition region40_valid :: ram_console_buffer where
  "region40_valid = region RAM_CONSOLE_SIG 3 9 (replicate 28 0xEE)"

text \<open>
  The store with parity (blocks of 4 bytes, 2 parity bytes each) that \<open>ram_console_init\<close>
  leaves in the region of 40 bytes whose header is not a store's: 12 bytes of data, the
  parity segments of the 3 blocks at 12 .. 17 and the header's at 18, 19, all as they were
  found.
\<close>

definition store_ecc :: globals where
  "store_ecc =
     globals0\<lparr>buffer := region RAM_CONSOLE_SIG 0 0 (replicate 28 0xEE),
              ram_console_buffer_size := 12, ram_console_par_buffer := 12,
              ram_console_rs_decoder := True, registered := True\<rparr>"

text \<open>The globals after a recovery of 5 bytes.\<close>

definition recovered5 :: globals where
  "recovered5 =
     globals0\<lparr>ram_console_old_log := Some [12, 13, 14, 10, 11],
              ram_console_old_log_size := 5\<rparr>"

text \<open>
  The example scenario of the specification: a region of 1024 bytes without parity, as
  \<open>ram_console_init\<close> leaves it, and the two texts written to it.
\<close>

definition store1012 :: globals where
  "store1012 =
     globals0\<lparr>buffer := region RAM_CONSOLE_SIG 0 0 (replicate 1012 0),
              ram_console_buffer_size := 1012, registered := True\<rparr>"

definition text_AAAA :: "byte list" where
  "text_AAAA = replicate 4 0x41"

definition text_B1024 :: "byte list" where
  "text_B1024 = replicate 1024 0x42"

text \<open>
  A codec for examples whose decoder does correct: blocks of 4 bytes, the 2 parity bytes
  hold a copy of the first 2 bytes of the block, and the decoder puts them back, counting
  the bytes that differed.
\<close>

definition prefix_ecc :: ecc where
  "prefix_ecc =
     \<lparr>ECC_BLOCK_SIZE = 4, ECC_SIZE = 2,
      encode_rs8 = (\<lambda>d p. map ucast (take (length p) d) @ drop (length d) p),
      decode_rs8 = (\<lambda>d p. (int (length (filter (\<lambda>(x, y). ucast x \<noteq> y) (zip d p))),
                             map ucast (take (length d) p) @ drop (length p) d)),
      init_rs_ok = True\<rparr>"


text \<open>
  A region of 40 bytes for that codec (12 bytes of data, the parity segments of its 3
  blocks, the header's parity segment at 18, 19) in which the first two bytes of the
  stored signature were damaged: the header's parity segment holds \<open>0x44, 0x42\<close>, the
  header \<open>0, 0\<close>.
\<close>

definition region40_fix :: ram_console_buffer where
  "region40_fix =
     region 0x43470000 3 9
       ([10, 11, 12, 13, 14, 15, 16, 17, 18, 19, 20, 21] @ [10, 11, 14, 15, 18, 19]
        @ [0x44, 0x42] @ replicate 8 0)"

text \<open>
  A platform device with platform data and a memory resource of 41000 bytes, of which the
  probe leaves 40 after the 10 pages it skips, and an \<open>ioremap\<close> that maps those 40 bytes
  to the region with a valid header.
\<close>

definition pdev40 :: platform_device where
  "pdev40 =
     \<lparr>of_node = False, platform_data = Some 41000,
      pdev_resource = Some \<lparr>res_start = 0, res_end = 40999, res_flags = IORESOURCE_MEM\<rparr>,
      mem_resource = None\<rparr>"

definition ioremap40 :: "size_t \<Rightarrow> size_t \<Rightarrow> ram_console_buffer option" where
  "ioremap40 a n = (if n = 40 then Some region40_valid else None)"
section \<open>Lemmas about the model\<close>

lemma memcpy_length: "memcpy dst off src n = Some d \<Longrightarrow> length d = length dst"
  by (auto simp: memcpy_def split: if_splits)

lemma memcpy_nth:
  "memcpy dst off src n = Some d \<Longrightarrow> i < length dst \<Longrightarrow>
     d ! i = (if off \<le> i \<and> i < off + n then src ! (i - off) else dst ! i)"
  by (auto simp: memcpy_def nth_append min_def split: if_splits)

lemma length_encode_bytes [simp]: "length (ram_console_encode_bytes e bytes) = ECC_SIZE e"
  by (simp add: ram_console_encode_bytes_def Let_def)

lemma slot_le_nblocks:
  assumes "0 < B" "j * B \<le> c"
  shows "j \<le> nblocks B c"
proof -
  have "j = j * B div B" using assms by simp
  also have "\<dots> \<le> c div B" using assms by (intro div_le_mono) simp
  also have "\<dots> \<le> (c + B - 1) div B" using assms(1) by (intro div_le_mono) linarith
  finally show ?thesis by (simp add: nblocks_def)
qed

lemma encode_rs8_Some:
  assumes "block + nat sz \<le> length mem" "0 \<le> sz" "par + ECC_SIZE e \<le> length mem"
  shows "ram_console_encode_rs8 e mem block sz par =
           Some (take par mem @ ram_console_encode_bytes e (take (nat sz) (drop block mem))
                 @ drop (par + ECC_SIZE e) mem)"
  using assms by (simp add: ram_console_encode_rs8_def peek_def memcpy_def)

lemma update_loop_effect:
  assumes B: "0 < ECC_BLOCK_SIZE e" and E: "0 < ECC_SIZE e"
    and lim: "lim \<le> cap"
    and len: "cap + (nblocks (ECC_BLOCK_SIZE e) cap + 1) * ECC_SIZE e \<le> length mem"
    and j: "j * ECC_BLOCK_SIZE e \<le> cap"
  shows "\<exists>mem'. update_loop e cap lim (j * ECC_BLOCK_SIZE e) (cap + j * ECC_SIZE e)
                   (int (ECC_BLOCK_SIZE e)) mem = Some mem'
           \<and> length mem' = length mem
           \<and> (\<forall>i<length mem.
                 (i < cap + j * ECC_SIZE e
                  \<or> (cap + j * ECC_SIZE e + ECC_SIZE e \<le> i
                      \<and> lim \<le> (i - cap) div ECC_SIZE e * ECC_BLOCK_SIZE e))
                 \<longrightarrow> mem' ! i = mem ! i)"
  using len j
proof (induction "lim - j * ECC_BLOCK_SIZE e" arbitrary: j mem rule: less_induct)
  case less
  let ?B = "ECC_BLOCK_SIZE e" and ?E = "ECC_SIZE e"
  let ?sz = "if j * ?B + ?B > cap then int cap - int (j * ?B) else int ?B"
  have jn: "j \<le> nblocks ?B cap"
    using B less.prems(2) by (rule slot_le_nblocks)
  then have "(j + 1) * ?E \<le> (nblocks ?B cap + 1) * ?E"
    by (intro mult_le_mono1) simp
  with less.prems(1) have "cap + (j + 1) * ?E \<le> length mem"
    by linarith
  then have par_ok: "cap + j * ?E + ?E \<le> length mem"
    by (simp add: algebra_simps)
  have sz0: "0 \<le> ?sz" using less.prems(2) by (simp del: of_nat_mult)
  have "nat ?sz = (if j * ?B + ?B > cap then cap - j * ?B else ?B)"
    by (simp del: of_nat_mult add: nat_diff_distrib')
  then have blk_ok: "j * ?B + nat ?sz \<le> length mem"
    using less.prems by (simp del: of_nat_mult split: if_splits)
  define mem1 where "mem1 = take (cap + j * ?E) mem
     @ ram_console_encode_bytes e (take (nat ?sz) (drop (j * ?B) mem))
     @ drop (cap + j * ?E + ?E) mem"
  have enc: "ram_console_encode_rs8 e mem (j * ?B) ?sz (cap + j * ?E) = Some mem1"
    unfolding mem1_def using blk_ok sz0 par_ok by (rule encode_rs8_Some)
  have len1: "length mem1 = length mem"
    using par_ok by (simp add: mem1_def)
  have nth1: "mem1 ! i = mem ! i" if "i < length mem" "i < cap + j * ?E \<or> cap + j * ?E + ?E \<le> i" for i
    using that par_ok by (auto simp: mem1_def nth_append)
  show ?case
  proof (cases "j * ?B + ?B < lim")
    case False
    then have "update_loop e cap lim (j * ?B) (cap + j * ?E) (int ?B) mem = Some mem1"
      by (subst update_loop.simps) (simp add: enc Let_def)
    with len1 nth1 show ?thesis by auto
  next
    case True
    then have nt: "\<not> j * ?B + ?B > cap" using lim by simp
    have step: "update_loop e cap lim (j * ?B) (cap + j * ?E) (int ?B) mem
        = update_loop e cap lim ((j + 1) * ?B) (cap + (j + 1) * ?E) (int ?B) mem1"
      using True B nt enc by (subst update_loop.simps) (simp add: Let_def algebra_simps)
    have "lim - (j + 1) * ?B < lim - j * ?B"
      using True B by simp
    moreover have "cap + (nblocks ?B cap + 1) * ?E \<le> length mem1"
      using less.prems(1) len1 by simp
    moreover have "(j + 1) * ?B \<le> cap"
      using True lim by simp
    ultimately obtain mem' where
      r: "update_loop e cap lim ((j + 1) * ?B) (cap + (j + 1) * ?E) (int ?B) mem1 = Some mem'"
      and l: "length mem' = length mem1"
      and f: "\<forall>i<length mem1.
                 (i < cap + (j + 1) * ?E
                  \<or> (cap + (j + 1) * ?E + ?E \<le> i \<and> lim \<le> (i - cap) div ?E * ?B))
                 \<longrightarrow> mem' ! i = mem1 ! i"
      using less.hyps [of "j + 1" mem1] by blast
    have "mem' ! i = mem ! i"
      if i: "i < length mem"
        and c: "i < cap + j * ?E \<or> (cap + j * ?E + ?E \<le> i \<and> lim \<le> (i - cap) div ?E * ?B)"
      for i
    proof -
      have "i < cap + (j + 1) * ?E \<or> (cap + (j + 1) * ?E + ?E \<le> i \<and> lim \<le> (i - cap) div ?E * ?B)"
      proof (cases "i < cap + (j + 1) * ?E")
        case True then show ?thesis by simp
      next
        case False
        with c have ge: "cap + (j + 1) * ?E \<le> i" and l2: "lim \<le> (i - cap) div ?E * ?B"
          by auto
        have "\<not> i < cap + (j + 1) * ?E + ?E"
        proof
          assume "i < cap + (j + 1) * ?E + ?E"
          with ge have "(i - cap) div ?E = j + 1"
            using E by (intro div_nat_eqI) (auto simp: algebra_simps)
          with l2 True show False by (simp add: algebra_simps)
        qed
        with l2 show ?thesis by simp
      qed
      moreover have "i < length mem1" using i len1 by simp
      ultimately have "mem' ! i = mem1 ! i" using f by blast
      moreover have "mem1 ! i = mem ! i"
        using c i by (intro nth1) auto
      ultimately show ?thesis by simp
    qed
    with r l len1 step show ?thesis by auto
  qed
qed

lemma and_not_mask_eq: "(x::'a::len word) AND NOT (mask k) = push_bit k (drop_bit k x)"
  by (rule bit_word_eqI) (auto simp: bit_simps)

lemma and_not_mask_unat:
  fixes x :: u32
  shows "unat (x AND NOT (2 ^ k - 1)) = unat x div 2 ^ k * 2 ^ k"
proof -
  have eq: "x AND NOT (2 ^ k - 1) = push_bit k (drop_bit k x)"
    by (simp add: and_not_mask_eq flip: mask_eq_exp_minus_1)
  have le: "unat x div 2 ^ k * 2 ^ k \<le> unat x"
    by simp
  have "unat x < 2 ^ 32"
    using unsigned_less [of x, where 'a = nat] by simp
  with le have lt: "unat x div 2 ^ k * 2 ^ k < 2 ^ 32"
    by linarith
  have "unat (push_bit k (drop_bit k x)) = take_bit 32 (push_bit k (drop_bit k (unat x)))"
    by (simp only: unsigned_push_bit_eq unat_drop_bit_eq) simp
  also have "\<dots> = unat x div 2 ^ k * 2 ^ k"
    using lt by (simp add: push_bit_eq_mult drop_bit_eq_div take_bit_eq_mod)
  finally show ?thesis
    unfolding eq .
qed

lemma unat_lt32: "unat (x::u32) < 2 ^ 32"
  using unsigned_less [of x, where 'a = nat] by simp

lemma unat_of_nat32: "n < 2 ^ 32 \<Longrightarrow> unat (of_nat n :: u32) = n"
  by (simp add: unat_of_nat)

lemma unat_mult_of_nat:
  "unat x * n < 2 ^ 32 \<Longrightarrow> unat ((x::u32) * of_nat n) = unat x * n"
  by (simp add: unat_word_ariths unat_of_nat mod_mult_right_eq)

lemma ecc_block_facts:
  fixes x :: u32
  assumes "ecc_ok e"
  shows "0 < ECC_BLOCK_SIZE e" "ECC_BLOCK_SIZE e < 2 ^ 31"
    "unat (of_nat (ECC_BLOCK_SIZE e) :: u32) = ECC_BLOCK_SIZE e"
    "unat (x AND NOT (of_nat (ECC_BLOCK_SIZE e) - 1))
       = unat x div ECC_BLOCK_SIZE e * ECC_BLOCK_SIZE e"
    "unat (x div of_nat (ECC_BLOCK_SIZE e)) = unat x div ECC_BLOCK_SIZE e"
proof -
  from assms obtain k where k: "k < 31" "ECC_BLOCK_SIZE e = 2 ^ k"
    by (auto simp: ecc_ok_def)
  show "0 < ECC_BLOCK_SIZE e" using k by simp
  have "(2::nat) ^ k < 2 ^ 31" using k(1) by (intro power_strict_increasing) simp_all
  then show lt: "ECC_BLOCK_SIZE e < 2 ^ 31" using k by simp
  then show u: "unat (of_nat (ECC_BLOCK_SIZE e) :: u32) = ECC_BLOCK_SIZE e"
    by (intro unat_of_nat32) simp
  show "unat (x AND NOT (of_nat (ECC_BLOCK_SIZE e) - 1))
       = unat x div ECC_BLOCK_SIZE e * ECC_BLOCK_SIZE e"
    using and_not_mask_unat [of x k] by (simp add: k)
  show "unat (x div of_nat (ECC_BLOCK_SIZE e)) = unat x div ECC_BLOCK_SIZE e"
    by (simp only: unat_div u)
qed

lemma div_round_up_unat:
  fixes c :: u32
  assumes "ecc_ok e" "unat c + ECC_BLOCK_SIZE e \<le> 2 ^ 32"
  shows "unat (DIV_ROUND_UP c (of_nat (ECC_BLOCK_SIZE e))) = nblocks (ECC_BLOCK_SIZE e) (unat c)"
proof -
  let ?B = "ECC_BLOCK_SIZE e"
  note f = ecc_block_facts [OF assms(1)]
  define w :: u32 where "w = of_nat (?B - 1)"
  have w: "unat w = ?B - 1"
    unfolding w_def using f(2) by (intro unat_of_nat32) simp
  have e1: "c + of_nat ?B - 1 = c + w"
    using f(1) by (simp add: w_def)
  have e2: "unat (c + w) = unat c + unat w"
    using assms(2) f(1) w by (subst unat_add_lem [symmetric]) simp
  have "unat (c + of_nat ?B - 1) = unat c + ?B - 1"
    unfolding e1 e2 w using f(1) by simp
  then show ?thesis
    by (simp only: DIV_ROUND_UP_def nblocks_def unat_div f(3))
qed

lemma take_eq_if_nth:
  assumes "length xs = length ys" "\<And>i. i < n \<Longrightarrow> i < length xs \<Longrightarrow> xs ! i = ys ! i"
  shows "take n xs = take n ys"
  using assms by (intro nth_equalityI) auto

lemma ram_console_update_effect:
  assumes wf: "wf_layout cfg g"
    and rng: "unat (start (buffer g)) + unat count \<le> unat (ram_console_buffer_size g)"
    and src: "unat count \<le> length s"
  shows "\<exists>d'. ram_console_update cfg g s count = Some (g\<lparr>buffer := (buffer g)\<lparr>data := d'\<rparr>\<rparr>)
      \<and> length d' = length (data (buffer g))
      \<and> take (unat (ram_console_buffer_size g)) d'
          = take (unat (start (buffer g))) (data (buffer g)) @ take (unat count) s
            @ drop (unat (start (buffer g)) + unat count)
                (take (unat (ram_console_buffer_size g)) (data (buffer g)))
      \<and> (\<forall>i<length d'. unat (ram_console_buffer_size g) \<le> i
            \<and> loop_keeps cfg (unat (ram_console_buffer_size g)) (unat (start (buffer g)))
                  (unat count) i
            \<longrightarrow> d' ! i = data (buffer g) ! i)"
proof -
  let ?cap = "unat (ram_console_buffer_size g)" and ?st = "unat (start (buffer g))"
  let ?n = "unat count" and ?dat = "data (buffer g)"
  have capn: "?cap \<le> length ?dat"
    using wf by (auto simp: wf_layout_def Let_def split: option.splits)
  define d where "d = take ?st ?dat @ take ?n s @ drop (?st + ?n) ?dat"
  have mc: "memcpy ?dat ?st s ?n = Some d"
    using capn rng src by (simp add: memcpy_def d_def)
  have lend: "length d = length ?dat"
    using mc by (rule memcpy_length)
  have taked: "take ?cap d = take ?st ?dat @ take ?n s @ drop (?st + ?n) (take ?cap ?dat)"
    using capn rng src by (simp add: d_def drop_take)
  have hi: "d ! i = ?dat ! i" if "i < length ?dat" "?cap \<le> i" for i
    using memcpy_nth [OF mc that(1)] that(2) rng by simp
  show ?thesis
  proof (cases cfg)
    case None
    then have "ram_console_update cfg g s count = Some (g\<lparr>buffer := (buffer g)\<lparr>data := d\<rparr>\<rparr>)"
      by (simp add: ram_console_update_def Let_def mc)
    with lend taked hi show ?thesis by auto
  next
    case (Some e)
    let ?B = "ECC_BLOCK_SIZE e" and ?E = "ECC_SIZE e"
    let ?j = "?st div ?B"
    from wf Some have ok: "ecc_ok e" and par: "ram_console_par_buffer g = ?cap"
      and lay: "?cap + (nblocks ?B ?cap + 1) * ?E \<le> length ?dat"
      and big: "length ?dat + ?B \<le> 2 ^ 32"
      by (auto simp: wf_layout_def Let_def)
    note f = ecc_block_facts [OF ok]
    have E: "0 < ?E" using ok by (simp add: ecc_ok_def)
    have jB: "?j * ?B \<le> ?cap"
    proof -
      have "?j * ?B \<le> ?st" by simp
      with rng show ?thesis by linarith
    qed
    have "?j \<le> nblocks ?B ?cap"
      using f(1) jB by (rule slot_le_nblocks)
    then have "?j * ?E \<le> (nblocks ?B ?cap + 1) * ?E"
      by (intro mult_le_mono1) simp
    with lay big f(1) have "?j * ?E < 2 ^ 32" by linarith
    then have "unat (start (buffer g) div of_nat ?B) * ?E < 2 ^ 32"
      by (simp only: f(5))
    then have pj: "unat (start (buffer g) div of_nat ?B * of_nat ?E) = ?j * ?E"
      by (simp only: unat_mult_of_nat f(5))
    from update_loop_effect [OF f(1) E rng _ jB, of d] lay lend
    obtain d' where
      r: "update_loop e ?cap (?st + ?n) (?j * ?B) (?cap + ?j * ?E) (int ?B) d = Some d'"
      and l: "length d' = length d"
      and fr: "\<forall>i<length d.
                 (i < ?cap + ?j * ?E
                  \<or> (?cap + ?j * ?E + ?E \<le> i \<and> ?st + ?n \<le> (i - ?cap) div ?E * ?B))
                 \<longrightarrow> d' ! i = d ! i"
      by auto
    have run: "ram_console_update cfg g s count = Some (g\<lparr>buffer := (buffer g)\<lparr>data := d'\<rparr>\<rparr>)"
      using f(1) by (simp add: ram_console_update_def Let_def mc Some f(4) pj par r)
    have low: "d' ! i = d ! i" if "i < ?cap" "i < length d" for i
      using fr that by auto
    have "take ?cap d' = take ?cap d"
      using l low by (intro take_eq_if_nth) auto
    moreover have "d' ! i = ?dat ! i"
      if "i < length d'" "?cap \<le> i" "loop_keeps cfg ?cap ?st ?n i" for i
    proof -
      from that l lend have i: "i < length ?dat" "i < length d" by simp_all
      have "d' ! i = d ! i"
        using fr i(2) that(3) by (auto simp: loop_keeps_def Some)
      with hi [OF i(1) that(2)] show ?thesis by simp
    qed
    ultimately show ?thesis
      using run l lend taked by auto
  qed
qed

lemma wf_layout_buffer_update:
  assumes "wf_layout cfg g" "length (data b') = length (data (buffer g))"
  shows "wf_layout cfg (g\<lparr>buffer := b'\<rparr>)"
  using assms by (auto simp: wf_layout_def Let_def split: option.splits)

lemma update_header_effect:
  assumes wf: "wf_layout cfg g"
  shows "\<exists>d'. ram_console_update_header cfg g = Some (g\<lparr>buffer := (buffer g)\<lparr>data := d'\<rparr>\<rparr>)
      \<and> length d' = length (data (buffer g))
      \<and> (\<forall>i<length d'. \<not> hdr_slot cfg (unat (ram_console_buffer_size g)) i
            \<longrightarrow> d' ! i = data (buffer g) ! i)"
proof (cases cfg)
  case None
  then show ?thesis
    by (intro exI [of _ "data (buffer g)"]) (simp add: ram_console_update_header_def)
next
  case (Some e)
  let ?cap = "unat (ram_console_buffer_size g)" and ?dat = "data (buffer g)"
  let ?B = "ECC_BLOCK_SIZE e" and ?E = "ECC_SIZE e"
  let ?N = "nblocks ?B ?cap"
  from wf Some have ok: "ecc_ok e" and par: "ram_console_par_buffer g = ?cap"
    and lay: "?cap + (?N + 1) * ?E \<le> length ?dat"
    and big: "length ?dat + ?B \<le> 2 ^ 32"
    by (auto simp: wf_layout_def Let_def)
  note f = ecc_block_facts [OF ok]
  have "?cap + ?B \<le> 2 ^ 32"
    using lay big by linarith
  with ok have dru: "unat (DIV_ROUND_UP (ram_console_buffer_size g) (of_nat ?B)) = ?N"
    by (rule div_round_up_unat)
  have "?N * ?E < 2 ^ 32"
    using lay big f(1) by (simp add: algebra_simps)
  then have "unat (DIV_ROUND_UP (ram_console_buffer_size g) (of_nat ?B) * of_nat ?E) = ?N * ?E"
    by (simp only: unat_mult_of_nat dru)
  then have hp: "header_par e g = ?cap + ?N * ?E"
    by (simp add: header_par_def par)
  have in_bounds: "?cap + ?N * ?E + ?E \<le> length ?dat"
    using lay by (simp add: algebra_simps)
  define d' where "d' = take (?cap + ?N * ?E) ?dat
      @ ram_console_encode_bytes e (header_bytes (buffer g)) @ drop (?cap + ?N * ?E + ?E) ?dat"
  have mc: "memcpy ?dat (header_par e g) (ram_console_encode_bytes e (header_bytes (buffer g))) ?E
      = Some d'"
    using in_bounds by (simp add: memcpy_def hp d'_def)
  have "ram_console_update_header cfg g = Some (g\<lparr>buffer := (buffer g)\<lparr>data := d'\<rparr>\<rparr>)"
    using f(1) by (simp add: ram_console_update_header_def Some mc)
  moreover have "length d' = length ?dat"
    using mc by (rule memcpy_length)
  moreover have "d' ! i = ?dat ! i" if "i < length d'" "\<not> hdr_slot cfg ?cap i" for i
    using memcpy_nth [OF mc, of i] that \<open>length d' = length ?dat\<close>
    by (auto simp: hdr_slot_def Some hp)
  ultimately show ?thesis by blast
qed

lemma length_clamp: "length (clamp cap s0) = min (length s0) cap"
  by (auto simp: clamp_def)

lemma ram_console_write_effect:
  assumes wf: "wf_layout cfg g"
    and inv: "unat (start (buffer g)) \<le> unat (ram_console_buffer_size g)"
    and cnt: "unat count0 = length s0"
  shows "\<exists>g'. ram_console_write cfg g s0 count0 = Some g'
      \<and> g' = g\<lparr>buffer := buffer g'\<rparr>
      \<and> sig (buffer g') = sig (buffer g)
      \<and> unat (start (buffer g'))
          = write_start (unat (ram_console_buffer_size g)) (unat (start (buffer g)))
              (min (length s0) (unat (ram_console_buffer_size g)))
      \<and> size_f (buffer g')
          = (if unat (start (buffer g)) + min (length s0) (unat (ram_console_buffer_size g))
                  \<le> unat (ram_console_buffer_size g)
             then (if size_f (buffer g) < ram_console_buffer_size g
                   then size_f (buffer g)
                          + of_nat (min (length s0) (unat (ram_console_buffer_size g)))
                   else size_f (buffer g))
             else ram_console_buffer_size g)
      \<and> length (data (buffer g')) = length (data (buffer g))
      \<and> take (unat (ram_console_buffer_size g)) (data (buffer g'))
          = write_data (unat (ram_console_buffer_size g)) (unat (start (buffer g)))
              (take (unat (ram_console_buffer_size g)) (data (buffer g)))
              (clamp (unat (ram_console_buffer_size g)) s0)
      \<and> (\<forall>i<length (data (buffer g)). unat (ram_console_buffer_size g) \<le> i
            \<and> write_keeps cfg (unat (ram_console_buffer_size g)) (unat (start (buffer g)))
                  (min (length s0) (unat (ram_console_buffer_size g))) i
            \<longrightarrow> data (buffer g') ! i = data (buffer g) ! i)"
proof -
  define bs where "bs = ram_console_buffer_size g"
  define b where "b = buffer g"
  define cap where "cap = unat bs"
  define st where "st = unat (start b)"
  define c where "c = min (length s0) cap"
  define dat where "dat = data b"
  define s where "s = clamp cap s0"
  define count where "count = (if count0 > bs then bs else count0)"
  have capn: "cap \<le> length dat"
    using wf by (auto simp: wf_layout_def Let_def cap_def bs_def dat_def b_def split: option.splits)
  have stcap: "st \<le> cap"
    using inv by (simp add: st_def cap_def bs_def b_def)
  have gt: "count0 > bs \<longleftrightarrow> cap < length s0"
    by (simp add: word_less_nat_alt cnt cap_def)
  have ucount: "unat count = c"
    by (auto simp: count_def gt c_def cap_def cnt)
  have sc: "(if count0 > bs then (drop (unat (count0 - bs)) s0, bs) else (s0, count0)) = (s, count)"
  proof (cases "count0 > bs")
    case True
    then have "unat (count0 - bs) = length s0 - cap"
      by (simp add: unat_sub cnt cap_def)
    with True show ?thesis by (simp add: s_def clamp_def count_def)
  next
    case False
    with gt have "length s0 - cap = 0" by simp
    with False show ?thesis by (simp add: s_def clamp_def count_def)
  qed
  have lens: "length s = c"
    by (simp add: s_def length_clamp c_def)
  have le: "start b \<le> bs"
    using stcap by (simp add: word_le_nat_alt st_def cap_def)
  have urem: "unat (bs - start b) = cap - st"
    using le by (simp add: unat_sub cap_def st_def)
  have lt: "bs - start b < count \<longleftrightarrow> cap - st < c"
    by (simp add: word_less_nat_alt urem ucount)
  have cw: "count = of_nat c"
    unfolding ucount [symmetric] by simp
  show ?thesis
  proof (cases "cap - st < c")
    case False
    then have fit: "st + c \<le> cap" using stcap by simp
    from ram_console_update_effect [OF wf, of count s] fit ucount lens
    obtain d1 where u1: "ram_console_update cfg g s count = Some (g\<lparr>buffer := b\<lparr>data := d1\<rparr>\<rparr>)"
      and l1: "length d1 = length dat"
      and t1: "take cap d1 = take st dat @ take c s @ drop (st + c) (take cap dat)"
      and f1: "\<forall>i<length d1. cap \<le> i \<and> loop_keeps cfg cap st c i \<longrightarrow> d1 ! i = dat ! i"
      by (auto simp: cap_def bs_def st_def b_def dat_def)
    define b4 where "b4 = (let b3 = b\<lparr>data := d1, start := start b + count\<rparr>
       in if size_f b3 < bs then b3\<lparr>size_f := size_f b3 + count\<rparr> else b3)"
    define g3 where "g3 = g\<lparr>buffer := b4\<rparr>"
    have db4: "data b4 = d1" by (simp add: b4_def Let_def)
    have wf3: "wf_layout cfg g3"
      unfolding g3_def using wf by (rule wf_layout_buffer_update) (simp add: db4 l1 dat_def b_def)
    from update_header_effect [OF wf3]
    obtain d3 where u3: "ram_console_update_header cfg g3 = Some (g3\<lparr>buffer := b4\<lparr>data := d3\<rparr>\<rparr>)"
      and l3: "length d3 = length d1"
      and f3: "\<forall>i<length d3. \<not> hdr_slot cfg cap i \<longrightarrow> d3 ! i = d1 ! i"
      by (auto simp: g3_def db4 cap_def bs_def)
    define g' where "g' = g3\<lparr>buffer := b4\<lparr>data := d3\<rparr>\<rparr>"
    have run: "ram_console_write cfg g s0 count0 = Some g'"
      using False lt u1 u3
      by (auto simp add: ram_console_write_def Let_def sc g'_def g3_def b4_def
          simp flip: bs_def b_def)
    have ust: "unat (start b + count) = st + c"
    proof -
      have "st + c < 2 ^ 32" using fit unat_lt32 [of bs] by (simp add: cap_def)
      then show ?thesis
        by (simp add: unat_add_lem [THEN iffD1] st_def ucount)
    qed
    have "take cap d3 = take cap d1"
    proof (rule take_eq_if_nth)
      show "length d3 = length d1" by (rule l3)
      fix i assume i: "i < cap" "i < length d3"
      then have "\<not> hdr_slot cfg cap i"
        by (auto simp: hdr_slot_def split: option.splits)
      with f3 i show "d3 ! i = d1 ! i" by simp
    qed
    with t1 lens fit have td: "take cap d3 = write_data cap st (take cap dat) s"
      using capn stcap by (simp add: write_data_def)
    have fr: "d3 ! i = dat ! i"
      if "i < length dat" "cap \<le> i" "write_keeps cfg cap st c i" for i
    proof -
      from that(3) fit have "\<not> hdr_slot cfg cap i" "loop_keeps cfg cap st c i"
        by (simp_all add: write_keeps_def)
      with f3 f1 that l1 l3 show ?thesis by simp
    qed
    have "g' = g\<lparr>buffer := buffer g'\<rparr>"
      by (simp add: g'_def g3_def)
    moreover have "sig (buffer g') = sig b"
      by (simp add: g'_def b4_def Let_def)
    moreover have "unat (start (buffer g')) = write_start cap st c"
      using fit ust by (simp add: g'_def b4_def Let_def write_start_def)
    moreover have "size_f (buffer g')
        = (if size_f b < bs then size_f b + of_nat c else size_f b)"
      by (simp add: g'_def b4_def Let_def cw)
    moreover have "length (data (buffer g')) = length dat"
      by (simp add: g'_def l3 l1)
    moreover have "take cap (data (buffer g')) = write_data cap st (take cap dat) s"
      using td by (simp add: g'_def)
    moreover have "\<forall>i<length dat. cap \<le> i \<and> write_keeps cfg cap st c i
        \<longrightarrow> data (buffer g') ! i = dat ! i"
      using fr by (simp add: g'_def)
    ultimately show ?thesis
      using run fit
      by (simp add: c_def cap_def bs_def st_def b_def dat_def s_def)
  next
    case True
    then have nofit: "\<not> st + c \<le> cap" by simp
    have ccap: "c \<le> cap" by (simp add: c_def)
    define c1 where "c1 = st + c - cap"
    have c1: "c1 = c - (cap - st)" "c1 \<le> st" "c1 \<le> cap"
      using True stcap ccap by (simp_all add: c1_def)
    from ram_console_update_effect [OF wf, of "bs - start b" s] stcap True lens urem
    obtain d1 where
      u1: "ram_console_update cfg g s (bs - start b) = Some (g\<lparr>buffer := b\<lparr>data := d1\<rparr>\<rparr>)"
      and l1: "length d1 = length dat"
      and t1: "take cap d1 = take st dat @ take (cap - st) s
                 @ drop (st + (cap - st)) (take cap dat)"
      and f1: "\<forall>i<length d1. cap \<le> i \<and> loop_keeps cfg cap st (cap - st) i
                 \<longrightarrow> d1 ! i = dat ! i"
      by (auto simp: cap_def bs_def st_def b_def dat_def)
    have t1': "take cap d1 = take st dat @ take (cap - st) s"
      using t1 stcap capn by simp
    define g1 where "g1 = g\<lparr>buffer := b\<lparr>data := d1, start := 0, size_f := bs\<rparr>\<rparr>"
    have wf1: "wf_layout cfg g1"
      unfolding g1_def using wf by (rule wf_layout_buffer_update) (simp add: l1 dat_def b_def)
    have le2: "bs - start b \<le> count"
      using True by (simp add: word_le_nat_alt urem ucount)
    have ucnt1: "unat (count - (bs - start b)) = c1"
      using le2 by (simp add: unat_sub urem ucount c1)
    from ram_console_update_effect [OF wf1, of "count - (bs - start b)" "drop (cap - st) s"]
      c1 lens ucnt1
    obtain d2 where
      u2: "ram_console_update cfg g1 (drop (cap - st) s) (count - (bs - start b))
            = Some (g1\<lparr>buffer := (buffer g1)\<lparr>data := d2\<rparr>\<rparr>)"
      and l2: "length d2 = length d1"
      and t2: "take cap d2 = take c1 (drop (cap - st) s) @ drop c1 (take cap d1)"
      and f2: "\<forall>i<length d2. cap \<le> i \<and> loop_keeps cfg cap 0 c1 i \<longrightarrow> d2 ! i = d1 ! i"
      by (auto simp: g1_def cap_def bs_def)
    define b4 where "b4 = b\<lparr>data := d2, start := count - (bs - start b), size_f := bs\<rparr>"
    define g3 where "g3 = g\<lparr>buffer := b4\<rparr>"
    have db4: "data b4 = d2" by (simp add: b4_def)
    have wf3: "wf_layout cfg g3"
      unfolding g3_def using wf
      by (rule wf_layout_buffer_update) (simp add: db4 l1 l2 dat_def b_def)
    from update_header_effect [OF wf3]
    obtain d3 where u3: "ram_console_update_header cfg g3 = Some (g3\<lparr>buffer := b4\<lparr>data := d3\<rparr>\<rparr>)"
      and l3: "length d3 = length d2"
      and f3: "\<forall>i<length d3. \<not> hdr_slot cfg cap i \<longrightarrow> d3 ! i = d2 ! i"
      by (auto simp: g3_def db4 cap_def bs_def)
    define g' where "g' = g3\<lparr>buffer := b4\<lparr>data := d3\<rparr>\<rparr>"
    obtain sg st0 sz0 dt where bb: "b = \<lparr>sig = sg, start = st0, size_f = sz0, data = dt\<rparr>"
      by (cases b)
    have run: "ram_console_write cfg g s0 count0 = Some g'"
      using True lt u1 u2 u3 unfolding g'_def g3_def g1_def b4_def
      by (simp add: ram_console_write_def Let_def sc urem flip: bs_def b_def)
        (simp add: bb)
    have "take cap d3 = take cap d2"
    proof (rule take_eq_if_nth)
      show "length d3 = length d2" by (rule l3)
      fix i assume i: "i < cap" "i < length d3"
      then have "\<not> hdr_slot cfg cap i"
        by (auto simp: hdr_slot_def split: option.splits)
      with f3 i show "d3 ! i = d2 ! i" by simp
    qed
    with t2 t1' lens True have td: "take cap d3 = write_data cap st (take cap dat) s"
      using capn stcap c1 nofit by (simp add: write_data_def c1_def)
    have fr: "d3 ! i = dat ! i"
      if "i < length dat" "cap \<le> i" "write_keeps cfg cap st c i" for i
    proof -
      from that(3) nofit have "\<not> hdr_slot cfg cap i" "loop_keeps cfg cap st (cap - st) i"
        "loop_keeps cfg cap 0 c1 i"
        by (simp_all add: write_keeps_def c1_def)
      with f3 f2 f1 that l1 l2 l3 show ?thesis by simp
    qed
    have "g' = g\<lparr>buffer := buffer g'\<rparr>"
      by (simp add: g'_def g3_def)
    moreover have "sig (buffer g') = sig b"
      by (simp add: g'_def b4_def)
    moreover have "unat (start (buffer g')) = write_start cap st c"
      using nofit ucnt1 by (simp add: g'_def b4_def write_start_def c1_def)
    moreover have "size_f (buffer g') = bs"
      by (simp add: g'_def b4_def)
    moreover have "length (data (buffer g')) = length dat"
      by (simp add: g'_def l3 l2 l1)
    moreover have "take cap (data (buffer g')) = write_data cap st (take cap dat) s"
      using td by (simp add: g'_def)
    moreover have "\<forall>i<length dat. cap \<le> i \<and> write_keeps cfg cap st c i
        \<longrightarrow> data (buffer g') ! i = dat ! i"
      using fr by (simp add: g'_def)
    ultimately show ?thesis
      using run nofit
      by (simp add: c_def cap_def bs_def st_def b_def dat_def s_def)
  qed
qed

lemma write_start_le: "st \<le> cap \<Longrightarrow> c \<le> cap \<Longrightarrow> write_start cap st c \<le> cap"
  by (auto simp: write_start_def)

lemma write_start_mod: "st \<le> cap \<Longrightarrow> write_start cap st c mod cap = (st + c) mod cap"
  by (auto simp: write_start_def le_mod_geq)

lemma ram_console_write_header:
  assumes wf: "wf_layout cfg g" and inv: "hdr_inv g" and cnt: "unat count = length s"
  shows "\<exists>g'. ram_console_write cfg g s count = Some g'
      \<and> ram_console_buffer_size g' = ram_console_buffer_size g
      \<and> unat (start (buffer g'))
          = write_start (unat (ram_console_buffer_size g)) (unat (start (buffer g)))
              (min (length s) (unat (ram_console_buffer_size g)))
      \<and> unat (size_f (buffer g'))
          = min (unat (size_f (buffer g)) + length s) (unat (ram_console_buffer_size g))
      \<and> hdr_inv g'"
proof -
  define bs where "bs = ram_console_buffer_size g"
  define cap where "cap = unat bs"
  define st where "st = unat (start (buffer g))"
  define c where "c = min (length s) cap"
  have stcap: "st \<le> cap"
    using inv by (simp add: hdr_inv_def st_def cap_def bs_def)
  have ccap: "c \<le> cap" by (simp add: c_def)
  from ram_console_write_effect [OF wf _ cnt] stcap
  obtain g' where run: "ram_console_write cfg g s count = Some g'"
    and same: "g' = g\<lparr>buffer := buffer g'\<rparr>"
    and st': "unat (start (buffer g')) = write_start cap st c"
    and sz': "size_f (buffer g')
          = (if st + c \<le> cap
             then (if size_f (buffer g) < bs then size_f (buffer g) + of_nat c
                   else size_f (buffer g))
             else bs)"
    unfolding st_def cap_def bs_def c_def by blast
  have bs': "ram_console_buffer_size g' = bs"
    by (subst same) (simp add: bs_def)
  have le': "write_start cap st c \<le> cap"
    using stcap ccap by (rule write_start_le)
  have lt32: "cap < 2 ^ 32" unfolding cap_def by (rule unat_lt32)
  have szc: "unat (size_f (buffer g')) = min (unat (size_f (buffer g)) + length s) cap
      \<and> (size_f (buffer g') = start (buffer g') \<or> size_f (buffer g') = bs)"
  proof (cases "st + c \<le> cap")
    case False
    then have sz: "size_f (buffer g') = bs" using sz' by simp
    from inv have "unat (size_f (buffer g)) = st \<or> unat (size_f (buffer g)) = cap"
      by (auto simp: hdr_inv_def st_def cap_def bs_def)
    with False have "cap \<le> unat (size_f (buffer g)) + length s"
      by (auto simp: c_def)
    with sz show ?thesis by (simp add: cap_def)
  next
    case fit: True
    show ?thesis
    proof (cases "size_f (buffer g) < bs")
      case False
      with inv have "size_f (buffer g) = bs"
        by (auto simp: hdr_inv_def bs_def word_less_nat_alt word_le_nat_alt
            word_unat_eq_iff)
      with fit sz' False show ?thesis by (simp add: cap_def)
    next
      case True
      with inv have eq: "size_f (buffer g) = start (buffer g)"
        by (auto simp: hdr_inv_def bs_def)
      have u: "unat (start (buffer g) + of_nat c) = st + c"
      proof -
        have "unat (of_nat c :: u32) = c"
          using ccap lt32 by (intro unat_of_nat32) simp
        moreover have "st + c < 2 ^ 32" using fit lt32 by simp
        ultimately show ?thesis
          by (simp add: unat_add_lem [THEN iffD1] st_def)
      qed
      have "st + c = min (st + length s) cap"
      proof (cases "length s \<le> cap")
        case True then show ?thesis using fit by (simp add: c_def)
      next
        case False
        then have "c = cap" by (simp add: c_def)
        with fit False show ?thesis by simp
      qed
      moreover have "size_f (buffer g') = start (buffer g')"
        using fit True sz' eq u st'
        by (simp add: word_unat_eq_iff write_start_def)
      ultimately show ?thesis
        using fit True sz' eq u by (simp add: st_def)
    qed
  qed
  have "hdr_inv g'"
    using szc st' le' bs' by (simp add: hdr_inv_def cap_def)
  with run bs' st' szc show ?thesis
    by (auto simp: cap_def bs_def st_def c_def)
qed

lemma rotate_le: "n \<le> length xs \<Longrightarrow> rotate n xs = drop n xs @ take n xs"
  by (cases "n = length xs") (simp_all add: rotate_drop_take)

lemma length_write_data:
  "length dat = cap \<Longrightarrow> st \<le> cap \<Longrightarrow> length s \<le> cap \<Longrightarrow> length (write_data cap st dat s) = cap"
  by (auto simp: write_data_def)

lemma write_rotate:
  assumes "length dat = cap" "st \<le> cap" "length s \<le> cap"
  shows "rotate (write_start cap st (length s)) (write_data cap st dat s)
           = drop (length s) (rotate st dat) @ s"
proof (cases "st + length s \<le> cap")
  case True
  then have "rotate (st + length s) (take st dat @ s @ drop (st + length s) dat)
      = drop (st + length s) dat @ take st dat @ s"
    using assms by (subst rotate_le) simp_all
  moreover have "drop (length s) (rotate st dat) = drop (st + length s) dat @ take st dat"
    using assms True by (simp add: rotate_le add.commute)
  ultimately show ?thesis
    using True by (simp add: write_start_def write_data_def)
next
  case False
  define c1 where "c1 = st + length s - cap"
  have c1: "c1 \<le> st" "c1 = length s - (cap - st)" "cap - st < length s"
    using False assms by (simp_all add: c1_def)
  have "rotate c1 (drop (cap - st) s @ drop c1 (take st dat) @ take (cap - st) s)
      = drop c1 (take st dat) @ take (cap - st) s @ drop (cap - st) s"
    using assms c1 by (subst rotate_le) simp_all
  moreover have "drop (length s) (rotate st dat) = drop c1 (take st dat)"
    using assms c1 by (simp add: rotate_le)
  ultimately show ?thesis
    using False by (simp add: write_start_def write_data_def c1_def)
qed

lemma ring_step:
  assumes R: "length R = cap" and m: "m = min (length h) cap"
    and old: "drop (cap - m) R = drop (length h - m) h"
    and n: "length s < cap" and m': "m' = min (length h + length s) cap"
  shows "drop (cap - m') (drop (length s) R @ s) = drop (length h + length s - m') (h @ s)"
proof -
  define k where "k = m - (m' - length s)"
  have a: "cap - m + k = cap - m' + length s" and b: "length h - m + k = length h + length s - m'"
    using m m' n by (auto simp: k_def min_def)
  have "drop k (drop (cap - m) R) = drop k (drop (length h - m) h)"
    using old by simp
  then have "drop (cap - m + k) R = drop (length h - m + k) h"
    by (simp add: add.commute)
  then have eq: "drop (cap - m' + length s) R = drop (length h + length s - m') h"
    by (simp only: a b)
  have "cap - m' \<le> length (drop (length s) R)" "length h + length s - m' \<le> length h"
    using R m' n by (auto simp: min_def)
  then show ?thesis
    using eq by (simp add: add.commute)
qed

lemma logical_content_rotate:
  assumes "unat (start (buffer g)) \<le> unat (ram_console_buffer_size g)"
    and "unat (size_f (buffer g)) \<le> unat (ram_console_buffer_size g)"
    and "unat (ram_console_buffer_size g) \<le> length (data (buffer g))"
  shows "logical_content g
           = drop (unat (ram_console_buffer_size g) - unat (size_f (buffer g)))
               (rotate (unat (start (buffer g)))
                  (take (unat (ram_console_buffer_size g)) (data (buffer g))))"
proof -
  let ?cap = "unat (ram_console_buffer_size g)" and ?st = "unat (start (buffer g))"
  let ?sz = "unat (size_f (buffer g))" and ?d = "data (buffer g)"
  show ?thesis
  proof (rule nth_equalityI)
    show "length (logical_content g) = length (drop (?cap - ?sz) (rotate ?st (take ?cap ?d)))"
      using assms by (simp add: logical_content_def Let_def)
  next
    fix i assume "i < length (logical_content g)"
    then have i: "i < ?sz" by (simp add: logical_content_def Let_def)
    with assms have pos: "0 < ?cap" and lt: "?cap - ?sz + i < ?cap" by simp_all
    have idx: "(?st + (?cap - ?sz + i)) mod ?cap = (?st + ?cap - ?sz + i) mod ?cap"
      using assms by (simp add: algebra_simps)
    have "drop (?cap - ?sz) (rotate ?st (take ?cap ?d)) ! i
        = rotate ?st (take ?cap ?d) ! (?cap - ?sz + i)"
      using assms lt by simp
    also have "\<dots> = take ?cap ?d ! ((?st + (?cap - ?sz + i)) mod ?cap)"
      using assms lt by (simp add: nth_rotate)
    also have "\<dots> = ?d ! ((?st + ?cap - ?sz + i) mod ?cap)"
      using pos by (simp add: idx)
    finally show "logical_content g ! i = drop (?cap - ?sz) (rotate ?st (take ?cap ?d)) ! i"
      using i by (simp add: logical_content_def Let_def)
  qed
qed

lemma holds_content:
  assumes "holds cfg g h"
  shows "logical_content g = drop (length h - unat (ram_console_buffer_size g)) h"
proof -
  let ?cap = "unat (ram_console_buffer_size g)"
  from assms have wf: "wf_layout cfg g" and inv: "hdr_inv g"
    and sz: "unat (size_f (buffer g)) = min (length h) ?cap"
    and c: "drop (?cap - unat (size_f (buffer g)))
              (rotate (unat (start (buffer g))) (take ?cap (data (buffer g))))
            = drop (length h - unat (size_f (buffer g))) h"
    unfolding holds_def Let_def by blast+
  have capn: "?cap \<le> length (data (buffer g))"
    using wf by (auto simp: wf_layout_def Let_def split: option.splits)
  have "logical_content g = drop (length h - unat (size_f (buffer g))) h"
    using inv sz capn c by (subst logical_content_rotate) (simp_all add: hdr_inv_def)
  also have "length h - unat (size_f (buffer g)) = length h - ?cap"
    using sz by simp
  finally show ?thesis .
qed

lemma holds_fresh:
  assumes "wf_layout cfg g" "start (buffer g) = 0" "size_f (buffer g) = 0"
  shows "holds cfg g []"
  using assms by (simp add: holds_def hdr_inv_def)


lemma holds_write:
  assumes hold: "holds cfg g h" and cnt: "unat count = length s"
  shows "\<exists>g'. ram_console_write cfg g s count = Some g'
      \<and> ram_console_buffer_size g' = ram_console_buffer_size g \<and> holds cfg g' (h @ s)"
proof -
  define cap where "cap = unat (ram_console_buffer_size g)"
  define st where "st = unat (start (buffer g))"
  define sz where "sz = unat (size_f (buffer g))"
  define R where "R = rotate st (take cap (data (buffer g)))"
  define s' where "s' = clamp cap s"
  from hold have wf: "wf_layout cfg g" and inv: "hdr_inv g"
    and sz: "sz = min (length h) cap"
    and old: "drop (cap - sz) R = drop (length h - sz) h"
    unfolding holds_def Let_def cap_def st_def sz_def R_def by blast+
  have stcap: "st \<le> cap" using inv by (simp add: hdr_inv_def st_def cap_def)
  have capn: "cap \<le> length (data (buffer g))"
    using wf by (auto simp: wf_layout_def Let_def cap_def split: option.splits)
  have ls': "length s' = min (length s) cap" by (simp add: s'_def length_clamp)
  from ram_console_write_effect [OF wf _ cnt] stcap
  obtain g' where run: "ram_console_write cfg g s count = Some g'"
    and same: "g' = g\<lparr>buffer := buffer g'\<rparr>"
    and len: "length (data (buffer g')) = length (data (buffer g))"
    and dat: "take cap (data (buffer g')) = write_data cap st (take cap (data (buffer g))) s'"
    unfolding cap_def st_def s'_def by blast
  from ram_console_write_header [OF wf inv cnt] run
  have bs': "ram_console_buffer_size g' = ram_console_buffer_size g"
    and st': "unat (start (buffer g')) = write_start cap st (length s')"
    and sz': "unat (size_f (buffer g')) = min (sz + length s) cap"
    and inv': "hdr_inv g'"
    by (auto simp: cap_def st_def sz_def ls')
  have wf': "wf_layout cfg g'"
    by (subst same) (rule wf_layout_buffer_update [OF wf len])
  have R': "rotate (unat (start (buffer g'))) (take cap (data (buffer g'))) = drop (length s') R @ s'"
    unfolding st' dat R_def using capn stcap ls' by (intro write_rotate) simp_all
  have lenR: "length R = cap" using capn by (simp add: R_def)
  have m': "min (sz + length s) cap = min (length h + length s) cap"
    using sz by (auto simp: min_def)
  have content: "drop (cap - min (length h + length s) cap) (drop (length s') R @ s')
      = drop (length h + length s - min (length h + length s) cap) (h @ s)"
  proof (cases "length s < cap")
    case True
    then have "s' = s" by (simp add: s'_def clamp_def)
    with ring_step [OF lenR sz old True refl] show ?thesis by simp
  next
    case False
    then have ls: "length s' = cap" and mc: "min (length h + length s) cap = cap"
      using ls' by simp_all
    have e: "length h + length s - cap = length h + (length s - cap)"
      using False by simp
    have "drop (cap - cap) (drop (length s') R @ s') = s'"
      using lenR ls by simp
    also have "s' = drop (length h + (length s - cap)) (h @ s)"
      by (simp add: s'_def clamp_def)
    finally show ?thesis
      unfolding mc e .
  qed
  have "holds cfg g' (h @ s)"
    using wf' inv' sz' R' content by (simp add: holds_def Let_def bs' m' flip: cap_def)
  with run bs' show ?thesis by blast
qed

lemma holds_writes:
  assumes "holds cfg g h" and "\<forall>s\<in>set ss. length s < 2 ^ 32"
  shows "\<exists>g'. ram_console_writes cfg g ss = Some g'
      \<and> ram_console_buffer_size g' = ram_console_buffer_size g \<and> holds cfg g' (h @ concat ss)"
  using assms
proof (induction ss arbitrary: g h)
  case Nil
  then show ?case by simp
next
  case (Cons s ss)
  then have "unat (of_nat (length s) :: u32) = length s"
    by (intro unat_of_nat32) simp
  from holds_write [OF Cons.prems(1) this]
  obtain g1 where g1: "ram_console_write cfg g s (of_nat (length s)) = Some g1"
    "ram_console_buffer_size g1 = ram_console_buffer_size g" "holds cfg g1 (h @ s)"
    by blast
  from Cons.IH [OF g1(3)] Cons.prems(2)
  obtain g' where "ram_console_writes cfg g1 ss = Some g'"
    "ram_console_buffer_size g' = ram_console_buffer_size g1" "holds cfg g' ((h @ s) @ concat ss)"
    by auto
  with g1 show ?case by simp
qed

lemma length_strbuf: "length (strbuf cb bb) \<le> 79"
  by (simp add: strbuf_def)

lemma length_trailer: "length (trailer cfg g) \<le> trailer_max cfg"
  by (simp add: trailer_def trailer_max_def length_strbuf split: option.splits)

lemma slot_lt_nblocks:
  assumes "0 < B" "j * B < c"
  shows "j < nblocks B c"
proof -
  have "(j + 1) * B \<le> c + B - 1" using assms by simp
  then have "(j + 1) * B div B \<le> (c + B - 1) div B" by (rule div_le_mono)
  then show ?thesis using assms(1) by (simp add: nblocks_def)
qed

lemma decode_rs8_Some:
  assumes "block + nat sz \<le> length mem" "0 \<le> sz" "par + ECC_SIZE e \<le> length mem"
    and "\<forall>d p. length (snd (decode_rs8 e d p)) = length d"
  shows "\<exists>numerr mem'. ram_console_decode_rs8 e mem block sz par = Some (numerr, mem')
           \<and> length mem' = length mem"
proof -
  obtain numerr bytes' where d: "ram_console_decode_bytes e (take (nat sz) (drop block mem))
      (take (ECC_SIZE e) (drop par mem)) = (numerr, bytes')"
    by fastforce
  then have "length bytes' = length (take (nat sz) (drop block mem))"
    using assms(4) unfolding ram_console_decode_bytes_def by (metis snd_conv)
  then have "nat sz \<le> length bytes'" using assms(1) by simp
  then show ?thesis
    using assms(1-3) d
    by (simp add: ram_console_decode_rs8_def peek_def memcpy_def)
qed

lemma decode_loop_total:
  assumes B: "0 < ECC_BLOCK_SIZE e"
    and dec: "\<forall>d p. length (snd (decode_rs8 e d p)) = length d"
    and lim: "lim \<le> cap"
    and len: "cap + (nblocks (ECC_BLOCK_SIZE e) cap + 1) * ECC_SIZE e \<le> length mem"
  shows "\<exists>mem' cb' bb'. decode_loop e cap lim (j * ECC_BLOCK_SIZE e) (cap + j * ECC_SIZE e)
                          (mem, cb, bb) = Some (mem', cb', bb')
           \<and> length mem' = length mem"
  using len
proof (induction "lim - j * ECC_BLOCK_SIZE e" arbitrary: j mem cb bb rule: less_induct)
  case less
  let ?B = "ECC_BLOCK_SIZE e" and ?E = "ECC_SIZE e"
  show ?case
  proof (cases "j * ?B < lim")
    case False
    then show ?thesis by (subst decode_loop.simps) simp
  next
    case True
    let ?sz = "if j * ?B + ?B > cap then int cap - int (j * ?B) else int ?B"
    have jc: "j * ?B < cap" using True lim by simp
    then have "j < nblocks ?B cap" using B by (intro slot_lt_nblocks)
    then have "(j + 1) * ?E \<le> (nblocks ?B cap + 1) * ?E"
      by (intro mult_le_mono1) simp
    with less.prems have "cap + (j + 1) * ?E \<le> length mem" by linarith
    then have par_ok: "cap + j * ?E + ?E \<le> length mem" by (simp add: algebra_simps)
    have sz0: "0 \<le> ?sz" using jc by (simp del: of_nat_mult)
    have "nat ?sz = (if j * ?B + ?B > cap then cap - j * ?B else ?B)"
      by (simp del: of_nat_mult add: nat_diff_distrib')
    then have blk_ok: "j * ?B + nat ?sz \<le> length mem"
      using less.prems jc by (simp del: of_nat_mult split: if_splits)
    from decode_rs8_Some [OF blk_ok sz0 par_ok dec]
    obtain numerr mem1 where
      d: "ram_console_decode_rs8 e mem (j * ?B) ?sz (cap + j * ?E) = Some (numerr, mem1)"
      and l1: "length mem1 = length mem"
      by blast
    define cb1 where "cb1 = (if numerr > 0 then cb + numerr else cb)"
    define bb1 where "bb1 = (if numerr > 0 then bb else if numerr < 0 then bb + 1 else bb)"
    have step: "decode_loop e cap lim (j * ?B) (cap + j * ?E) (mem, cb, bb)
        = decode_loop e cap lim ((j + 1) * ?B) (cap + (j + 1) * ?E) (mem1, cb1, bb1)"
      using True B d
      by (subst decode_loop.simps) (simp add: Let_def algebra_simps cb1_def bb1_def)
    have "lim - (j + 1) * ?B < lim - j * ?B" using True B by simp
    moreover have "cap + (nblocks ?B cap + 1) * ?E \<le> length mem1"
      using less.prems l1 by simp
    ultimately obtain mem' cb' bb' where
      "decode_loop e cap lim ((j + 1) * ?B) (cap + (j + 1) * ?E) (mem1, cb1, bb1)
         = Some (mem', cb', bb')" "length mem' = length mem1"
      using less.hyps [of "j + 1" mem1 cb1 bb1] by blast
    with step l1 show ?thesis by simp
  qed
qed

lemma wf_layout_cong:
  assumes "wf_layout cfg g"
    and "ram_console_buffer_size g' = ram_console_buffer_size g"
    and "ram_console_par_buffer g' = ram_console_par_buffer g"
    and "length (data (buffer g')) = length (data (buffer g))"
  shows "wf_layout cfg g'"
  using assms by (auto simp: wf_layout_def Let_def split: option.splits)

lemma save_old_copy:
  assumes d0: "sz + length sb \<le> length d0" and st: "st \<le> sz" and sz: "sz \<le> length dat"
  shows "\<exists>d1 d2 d3. memcpy d0 0 (drop st dat) (sz - st) = Some d1
          \<and> memcpy d1 (sz - st) dat st = Some d2
          \<and> memcpy d2 sz sb (length sb) = Some d3 \<and> length d3 = length d0
          \<and> take (sz + length sb) d3 = subrange dat st (st + (sz - st)) @ subrange dat 0 st @ sb"
proof -
  define d1 where "d1 = take (sz - st) (drop st dat) @ drop (sz - st) d0"
  define d2 where "d2 = take (sz - st) d1 @ take st dat @ drop sz d1"
  define d3 where "d3 = take sz d2 @ sb @ drop (sz + length sb) d2"
  have l1: "length d1 = length d0" using assms by (simp add: d1_def)
  have l2: "length d2 = length d0" using assms l1 by (simp add: d2_def)
  have m1: "memcpy d0 0 (drop st dat) (sz - st) = Some d1"
    using assms by (auto simp: memcpy_def d1_def)
  have m2: "memcpy d1 (sz - st) dat st = Some d2"
    using assms l1 by (simp add: memcpy_def d2_def)
  have m3: "memcpy d2 sz sb (length sb) = Some d3"
    using assms l2 by (simp add: memcpy_def d3_def)
  have "take (sz + length sb) d3 = take sz d2 @ sb"
    using assms l2 by (simp add: d3_def)
  also have "take sz d2 = take (sz - st) d1 @ take st dat"
    using assms l1 by (simp add: d2_def)
  also have "take (sz - st) d1 = take (sz - st) (drop st dat)"
    using assms by (simp add: d1_def)
  finally have "take (sz + length sb) d3 = subrange dat st (st + (sz - st)) @ subrange dat 0 st @ sb"
    by (simp add: subrange_def)
  moreover have "length d3 = length d0"
    using memcpy_length [OF m3] l2 by simp
  ultimately show ?thesis using m1 m2 m3 by blast
qed

lemma save_old_effect:
  assumes wf: "wf_layout cfg g" and dec: "decoder_ok cfg"
    and st: "start (buffer g) \<le> size_f (buffer g)"
    and sz: "size_f (buffer g) \<le> ram_console_buffer_size g"
    and nowrap: "unat (size_f (buffer g)) + trailer_max cfg < 2 ^ 32"
    and dest: "dest_ok cfg (unat (size_f (buffer g))) dest"
  shows "\<exists>g'. ram_console_save_old cfg kmalloc_ok g dest = Some g'
      \<and> ram_console_buffer_size g' = ram_console_buffer_size g
      \<and> ram_console_par_buffer g' = ram_console_par_buffer g
      \<and> ram_console_rs_decoder g' = ram_console_rs_decoder g
      \<and> registered g' = registered g
      \<and> sig (buffer g') = sig (buffer g) \<and> start (buffer g') = start (buffer g)
      \<and> size_f (buffer g') = size_f (buffer g)
      \<and> length (data (buffer g')) = length (data (buffer g))
      \<and> (cfg = None \<longrightarrow> data (buffer g') = data (buffer g))
      \<and> (if dest = None \<and> \<not> kmalloc_ok
          then ram_console_old_log g' = ram_console_old_log g
               \<and> ram_console_old_log_size g' = ram_console_old_log_size g
          else \<exists>log. ram_console_old_log g' = Some log
               \<and> length log
                   = (case dest of
                        None \<Rightarrow> unat (size_f (buffer g)) + length (trailer cfg g')
                      | Some buf \<Rightarrow> length buf)
               \<and> unat (ram_console_old_log_size g')
                   = unat (size_f (buffer g)) + length (trailer cfg g')
               \<and> take (unat (ram_console_old_log_size g')) log
                   = subrange (data (buffer g')) (unat (start (buffer g)))
                       (unat (start (buffer g))
                          + (unat (size_f (buffer g)) - unat (start (buffer g))))
                     @ subrange (data (buffer g')) 0 (unat (start (buffer g)))
                     @ trailer cfg g')"
proof -
  define b where "b = buffer g"
  define cap where "cap = unat (ram_console_buffer_size g)"
  define s where "s = unat (size_f b)"
  define p where "p = unat (start b)"
  have ps: "p \<le> s" using st by (simp add: word_le_nat_alt p_def s_def b_def)
  have scap: "s \<le> cap" using sz by (simp add: word_le_nat_alt cap_def s_def b_def)
  have capn: "cap \<le> length (data b)"
    using wf by (auto simp: wf_layout_def Let_def cap_def b_def split: option.splits)
  have usub: "unat (size_f b - start b) = s - p"
    using st by (simp add: unat_sub s_def p_def b_def)
  obtain g1 sb where
    phase1: "(case cfg of
             None \<Rightarrow> Some (g, [])
           | Some e \<Rightarrow>
               decode_loop e (unat (ram_console_buffer_size g)) (unat (size_f (buffer g)))
                   0 (ram_console_par_buffer g)
                   (data (buffer g), ram_console_corrected_bytes g, ram_console_bad_blocks g)
               \<bind> (\<lambda>(mem, cb, bb).
               Some (g\<lparr>buffer := (buffer g)\<lparr>data := mem\<rparr>,
                       ram_console_corrected_bytes := cb, ram_console_bad_blocks := bb\<rparr>,
                     strbuf cb bb))) = Some (g1, sb)"
    and g1: "\<exists>mem cb bb. g1 = g\<lparr>buffer := b\<lparr>data := mem\<rparr>,
                       ram_console_corrected_bytes := cb, ram_console_bad_blocks := bb\<rparr>
               \<and> length mem = length (data b) \<and> (cfg = None \<longrightarrow> mem = data b)"
    and sb: "sb = trailer cfg g1"
  proof (cases cfg)
    case None
    show ?thesis
    proof (rule that [of g "[]"])
      show "\<exists>mem cb bb. g = g\<lparr>buffer := b\<lparr>data := mem\<rparr>,
                       ram_console_corrected_bytes := cb, ram_console_bad_blocks := bb\<rparr>
               \<and> length mem = length (data b) \<and> (cfg = None \<longrightarrow> mem = data b)"
        by (intro exI [of _ "data b"] exI [of _ "ram_console_corrected_bytes g"]
            exI [of _ "ram_console_bad_blocks g"]) (simp add: b_def)
    qed (simp_all add: None trailer_def)
  next
    case (Some e)
    from wf Some have ok: "ecc_ok e" and par: "ram_console_par_buffer g = cap"
      and lay: "cap + (nblocks (ECC_BLOCK_SIZE e) cap + 1) * ECC_SIZE e \<le> length (data b)"
      by (auto simp: wf_layout_def Let_def cap_def b_def)
    have d: "\<forall>d p. length (snd (decode_rs8 e d p)) = length d"
      using dec Some by (simp add: decoder_ok_def)
    have "\<exists>mem' cb' bb'.
        decode_loop e cap s (0 * ECC_BLOCK_SIZE e) (cap + 0 * ECC_SIZE e)
          (data b, ram_console_corrected_bytes g, ram_console_bad_blocks g)
          = Some (mem', cb', bb')
        \<and> length mem' = length (data b)"
      by (rule decode_loop_total [OF ecc_block_facts(1) [OF ok] d scap lay])
    then obtain mem cb bb where
      r: "decode_loop e cap s 0 cap (data b, ram_console_corrected_bytes g,
            ram_console_bad_blocks g) = Some (mem, cb, bb)"
      and l: "length mem = length (data b)"
      by auto
    show ?thesis
    proof (rule that [of "g\<lparr>buffer := b\<lparr>data := mem\<rparr>,
                       ram_console_corrected_bytes := cb, ram_console_bad_blocks := bb\<rparr>"
                     "strbuf cb bb"])
      show "\<exists>mem' cb' bb'. g\<lparr>buffer := b\<lparr>data := mem\<rparr>,
                       ram_console_corrected_bytes := cb, ram_console_bad_blocks := bb\<rparr>
              = g\<lparr>buffer := b\<lparr>data := mem'\<rparr>,
                       ram_console_corrected_bytes := cb', ram_console_bad_blocks := bb'\<rparr>
               \<and> length mem' = length (data b) \<and> (cfg = None \<longrightarrow> mem' = data b)"
        using l Some by blast
    qed (simp_all add: Some r par trailer_def flip: cap_def s_def b_def)
  qed
  from g1 obtain mem cb bb where
    g1': "g1 = g\<lparr>buffer := b\<lparr>data := mem\<rparr>,
                       ram_console_corrected_bytes := cb, ram_console_bad_blocks := bb\<rparr>"
    and lmem: "length mem = length (data b)" and same: "cfg = None \<longrightarrow> mem = data b"
    by blast
  have lsb: "length sb \<le> trailer_max cfg"
    unfolding sb by (rule length_trailer)
  have utot: "unat (size_f b + of_nat (length sb)) = s + length sb"
  proof -
    have "s + length sb < 2 ^ 32" using nowrap lsb by (simp add: s_def b_def)
    moreover from this have "unat (of_nat (length sb) :: u32) = length sb"
      by (intro unat_of_nat32) simp
    ultimately show ?thesis
      by (simp add: unat_add_lem [THEN iffD1] s_def)
  qed
  show ?thesis
  proof (cases "dest = None \<and> \<not> kmalloc_ok")
    case True
    then have "ram_console_save_old cfg kmalloc_ok g dest = Some g1"
      using phase1 by (simp add: ram_console_save_old_def Let_def)
    then show ?thesis
      using True lmem same by (simp add: g1' b_def)
  next
    case False
    define d0 where "d0 = (case dest of None \<Rightarrow> replicate (s + length sb) 0 | Some buf \<Rightarrow> buf)"
    have alloc: "(case dest of
                   None \<Rightarrow> if kmalloc_ok
                           then Some (replicate (unat (size_f b + of_nat (length sb))) 0)
                           else None
                 | Some buf \<Rightarrow> Some buf) = Some d0"
      using False by (auto simp: d0_def utot split: option.splits)
    have ld0: "s + length sb \<le> length d0"
      using dest lsb by (auto simp: d0_def dest_ok_def s_def b_def split: option.splits)
    from save_old_copy [OF ld0 ps, of mem] scap capn lmem
    obtain d1 d2 d3 where
      cp: "memcpy d0 0 (drop p mem) (s - p) = Some d1" "memcpy d1 (s - p) mem p = Some d2"
        "memcpy d2 s sb (length sb) = Some d3"
      and ld3: "length d3 = length d0"
      and tk: "take (s + length sb) d3 = subrange mem p (p + (s - p)) @ subrange mem 0 p @ sb"
      by auto
    define g' where "g' = g1\<lparr>ram_console_old_log := Some d3,
        ram_console_old_log_size := size_f b + of_nat (length sb)\<rparr>"
    have run: "ram_console_save_old cfg kmalloc_ok g dest = Some g'"
      using phase1 alloc cp
      by (simp add: ram_console_save_old_def Let_def g1' usub g'_def
          flip: b_def s_def p_def)
    have tr: "trailer cfg g' = sb"
      unfolding sb by (simp add: g'_def trailer_def split: option.splits)
    have f: "ram_console_buffer_size g' = ram_console_buffer_size g"
      "ram_console_par_buffer g' = ram_console_par_buffer g"
      "ram_console_rs_decoder g' = ram_console_rs_decoder g"
      "registered g' = registered g" "buffer g' = b\<lparr>data := mem\<rparr>"
      "ram_console_old_log g' = Some d3"
      "ram_console_old_log_size g' = size_f b + of_nat (length sb)"
      by (simp_all add: g'_def g1')
    have ll: "length d3 = (case dest of
                        None \<Rightarrow> unat (size_f (buffer g)) + length (trailer cfg g')
                      | Some buf \<Rightarrow> length buf)"
      unfolding ld3 tr by (simp add: d0_def s_def b_def split: option.splits)
    have "\<exists>log. ram_console_old_log g' = Some log
               \<and> length log
                   = (case dest of
                        None \<Rightarrow> unat (size_f (buffer g)) + length (trailer cfg g')
                      | Some buf \<Rightarrow> length buf)
               \<and> unat (ram_console_old_log_size g')
                   = unat (size_f (buffer g)) + length (trailer cfg g')
               \<and> take (unat (ram_console_old_log_size g')) log
                   = subrange (data (buffer g')) (unat (start (buffer g)))
                       (unat (start (buffer g))
                          + (unat (size_f (buffer g)) - unat (start (buffer g))))
                     @ subrange (data (buffer g')) 0 (unat (start (buffer g)))
                     @ trailer cfg g'"
      using ll utot tk by (simp add: f tr flip: b_def s_def p_def)
    then show ?thesis
      using False run lmem same
      by (auto simp add: f simp flip: b_def)
  qed
qed

lemma nblocks_mono: "c \<le> c' \<Longrightarrow> nblocks B c \<le> nblocks B c'"
  unfolding nblocks_def by (intro div_le_mono) simp

lemma init_capacity_plain:
  fixes bsz :: size_t
  assumes "12 \<le> unat bsz"
  shows "\<not> bsz - 12 > bsz" "unat (bsz - 12) = unat bsz - 12"
proof -
  have le: "(12 :: size_t) \<le> bsz"
    using assms by (simp add: word_le_nat_alt)
  then show u: "unat (bsz - 12) = unat bsz - 12"
    by (simp add: unat_sub)
  then show "\<not> bsz - 12 > bsz"
    by (simp add: word_less_nat_alt)
qed

lemma init_capacity_short:
  fixes bsz :: size_t
  assumes "unat bsz < 12"
  shows "bsz - 12 > bsz"
proof -
  have "unat (bsz - 12) = unat bsz + 2 ^ 32 - 12"
    using assms by (simp add: unat_sub_if')
  then show ?thesis
    using assms by (simp add: word_less_nat_alt)
qed

lemma reservation_unat:
  fixes c1 :: size_t
  assumes ok: "ecc_ok e" and big: "unat c1 + ECC_BLOCK_SIZE e \<le> 2 ^ 32"
    and r: "reservation e (unat c1) < 2 ^ 32"
  shows "unat ((DIV_ROUND_UP c1 (of_nat (ECC_BLOCK_SIZE e)) + 1) * of_nat (ECC_SIZE e))
           = reservation e (unat c1)"
proof -
  let ?N = "nblocks (ECC_BLOCK_SIZE e) (unat c1)"
  have E: "0 < ECC_SIZE e" using ok by (simp add: ecc_ok_def)
  have dru: "unat (DIV_ROUND_UP c1 (of_nat (ECC_BLOCK_SIZE e))) = ?N"
    using ok big by (rule div_round_up_unat)
  have "(?N + 1) * 1 \<le> (?N + 1) * ECC_SIZE e"
    using E by (intro mult_le_mono2) simp
  then have "?N + 1 \<le> (?N + 1) * ECC_SIZE e" by simp
  with r have "?N + 1 < 2 ^ 32" by (simp add: reservation_def)
  then have "unat (DIV_ROUND_UP c1 (of_nat (ECC_BLOCK_SIZE e)) + 1) = ?N + 1"
    by (simp add: unat_add_lem [THEN iffD1] dru)
  moreover from this have "unat (DIV_ROUND_UP c1 (of_nat (ECC_BLOCK_SIZE e)) + 1) * ECC_SIZE e < 2 ^ 32"
    using r by (simp add: reservation_def)
  ultimately show ?thesis
    by (simp only: unat_mult_of_nat reservation_def)
qed

lemma header_par_eq:
  assumes wf: "wf_layout (Some e) g"
  shows "header_par e g = unat (ram_console_buffer_size g)
           + nblocks (ECC_BLOCK_SIZE e) (unat (ram_console_buffer_size g)) * ECC_SIZE e"
    and "unat (ram_console_buffer_size g)
           + nblocks (ECC_BLOCK_SIZE e) (unat (ram_console_buffer_size g)) * ECC_SIZE e
           + ECC_SIZE e \<le> length (data (buffer g))"
proof -
  let ?cap = "unat (ram_console_buffer_size g)" and ?dat = "data (buffer g)"
  let ?B = "ECC_BLOCK_SIZE e" and ?E = "ECC_SIZE e"
  let ?N = "nblocks ?B ?cap"
  from wf have ok: "ecc_ok e" and par: "ram_console_par_buffer g = ?cap"
    and lay: "?cap + (?N + 1) * ?E \<le> length ?dat"
    and big: "length ?dat + ?B \<le> 2 ^ 32"
    by (auto simp: wf_layout_def Let_def)
  note f = ecc_block_facts [OF ok]
  have "?cap + ?B \<le> 2 ^ 32"
    using lay big by linarith
  with ok have dru: "unat (DIV_ROUND_UP (ram_console_buffer_size g) (of_nat ?B)) = ?N"
    by (rule div_round_up_unat)
  have "?N * ?E < 2 ^ 32"
    using lay big f(1) by (simp add: algebra_simps)
  then have "unat (DIV_ROUND_UP (ram_console_buffer_size g) (of_nat ?B) * of_nat ?E) = ?N * ?E"
    by (simp only: unat_mult_of_nat dru)
  then show "header_par e g = ?cap + ?N * ?E"
    by (simp add: header_par_def par)
  show "?cap + ?N * ?E + ?E \<le> length ?dat"
    using lay by (simp add: algebra_simps)
qed

lemma dest_ok_mono: "dest_ok cfg c dest \<Longrightarrow> s \<le> c \<Longrightarrow> dest_ok cfg s dest"
  by (auto simp: dest_ok_def split: option.splits)

lemma init_finish_effect:
  assumes wf: "wf_layout cfg g" and dec: "decoder_ok cfg"
    and dst: "dest_ok cfg (unat (ram_console_buffer_size g)) old_buf"
    and nowrap: "unat (ram_console_buffer_size g) + trailer_max cfg < 2 ^ 32"
  shows "\<exists>g'. init_finish cfg kmalloc_ok g old_buf = Some (0, g')
      \<and> sig (buffer g') = RAM_CONSOLE_SIG \<and> start (buffer g') = 0 \<and> size_f (buffer g') = 0
      \<and> registered g'
      \<and> ram_console_buffer_size g' = ram_console_buffer_size g
      \<and> ram_console_par_buffer g' = ram_console_par_buffer g
      \<and> length (data (buffer g')) = length (data (buffer g))
      \<and> (cfg = None \<longrightarrow> data (buffer g') = data (buffer g))
      \<and> (if valid_header (buffer g) (ram_console_buffer_size g)
            \<and> (old_buf \<noteq> None \<or> kmalloc_ok)
          then \<exists>log. ram_console_old_log g' = Some log
               \<and> unat (ram_console_old_log_size g')
                   = unat (size_f (buffer g)) + length (trailer cfg g')
               \<and> take (unat (ram_console_old_log_size g')) log
                   = subrange (data (buffer g')) (unat (start (buffer g)))
                       (unat (start (buffer g))
                          + (unat (size_f (buffer g)) - unat (start (buffer g))))
                     @ subrange (data (buffer g')) 0 (unat (start (buffer g)))
                     @ trailer cfg g'
          else ram_console_old_log g' = ram_console_old_log g
               \<and> ram_console_old_log_size g' = ram_console_old_log_size g)"
proof (cases "valid_header (buffer g) (ram_console_buffer_size g)")
  case False
  then have "init_finish cfg kmalloc_ok g old_buf
      = Some (0, g\<lparr>buffer := (buffer g)\<lparr>sig := RAM_CONSOLE_SIG, start := 0, size_f := 0\<rparr>,
                   registered := True\<rparr>)"
    by (auto simp: init_finish_def valid_header_def not_le)
  with False show ?thesis by simp
next
  case True
  then have v: "sig (buffer g) = RAM_CONSOLE_SIG" "size_f (buffer g) \<le> ram_console_buffer_size g"
    "start (buffer g) \<le> size_f (buffer g)"
    by (simp_all add: valid_header_def)
  have le: "unat (size_f (buffer g)) \<le> unat (ram_console_buffer_size g)"
    using v(2) by (simp add: word_le_nat_alt)
  have nw: "unat (size_f (buffer g)) + trailer_max cfg < 2 ^ 32"
    using le nowrap by simp
  have d: "dest_ok cfg (unat (size_f (buffer g))) old_buf"
    using dst le by (rule dest_ok_mono)
  from save_old_effect [OF wf dec v(3) v(2) nw d, of kmalloc_ok]
  obtain g1 where so: "ram_console_save_old cfg kmalloc_ok g old_buf = Some g1"
    and f: "ram_console_buffer_size g1 = ram_console_buffer_size g"
      "ram_console_par_buffer g1 = ram_console_par_buffer g"
      "length (data (buffer g1)) = length (data (buffer g))"
      "cfg = None \<longrightarrow> data (buffer g1) = data (buffer g)"
    and lg: "if old_buf = None \<and> \<not> kmalloc_ok
          then ram_console_old_log g1 = ram_console_old_log g
               \<and> ram_console_old_log_size g1 = ram_console_old_log_size g
          else \<exists>log. ram_console_old_log g1 = Some log
               \<and> length log
                   = (case old_buf of
                        None \<Rightarrow> unat (size_f (buffer g)) + length (trailer cfg g1)
                      | Some buf \<Rightarrow> length buf)
               \<and> unat (ram_console_old_log_size g1)
                   = unat (size_f (buffer g)) + length (trailer cfg g1)
               \<and> take (unat (ram_console_old_log_size g1)) log
                   = subrange (data (buffer g1)) (unat (start (buffer g)))
                       (unat (start (buffer g))
                          + (unat (size_f (buffer g)) - unat (start (buffer g))))
                     @ subrange (data (buffer g1)) 0 (unat (start (buffer g)))
                     @ trailer cfg g1"
    by blast
  define g' where "g' = g1\<lparr>buffer := (buffer g1)\<lparr>sig := RAM_CONSOLE_SIG, start := 0, size_f := 0\<rparr>,
                   registered := True\<rparr>"
  have run: "init_finish cfg kmalloc_ok g old_buf = Some (0, g')"
    using v so by (simp add: init_finish_def g'_def leD)
  have tr: "trailer cfg g' = trailer cfg g1"
    by (simp add: trailer_def g'_def split: option.splits)
  have g'f: "sig (buffer g') = RAM_CONSOLE_SIG" "start (buffer g') = 0" "size_f (buffer g') = 0"
    "registered g'" "ram_console_buffer_size g' = ram_console_buffer_size g1"
    "ram_console_par_buffer g' = ram_console_par_buffer g1"
    "data (buffer g') = data (buffer g1)"
    "ram_console_old_log g' = ram_console_old_log g1"
    "ram_console_old_log_size g' = ram_console_old_log_size g1"
    by (simp_all add: g'_def)
  show ?thesis
    using True run f lg by (auto simp add: g'f tr)
qed

lemma init_effect:
  assumes reg: "region_ok cfg buf bsz" and dec: "decoder_ok cfg" and rs: "codec_ok cfg"
    and dst: "dest_ok cfg (data_capacity cfg bsz) old_buf"
  shows "\<exists>g'. ram_console_init cfg kmalloc_ok g0 buf bsz old_buf = Some (0, g')
      \<and> sig (buffer g') = RAM_CONSOLE_SIG \<and> start (buffer g') = 0 \<and> size_f (buffer g') = 0
      \<and> registered g' \<and> wf_layout cfg g'
      \<and> unat (ram_console_buffer_size g') = data_capacity cfg bsz
      \<and> length (data (buffer g')) = length (data buf)
      \<and> (cfg = None \<longrightarrow> data (buffer g') = data buf)
      \<and> (if valid_header (header_seen cfg buf bsz) (ram_console_buffer_size g')
            \<and> (old_buf \<noteq> None \<or> kmalloc_ok)
          then recovered cfg (header_seen cfg buf bsz) g'
          else ram_console_old_log g' = ram_console_old_log g0
               \<and> ram_console_old_log_size g' = ram_console_old_log_size g0)"
proof -
  from reg have b12: "12 \<le> unat bsz" and len: "length (data buf) = unat bsz - 12"
    by (simp_all add: region_ok_def)
  note c1 = init_capacity_plain [OF b12]
  define g1 where "g1 = g0\<lparr>buffer := buf, ram_console_buffer_size := bsz - 12\<rparr>"
  show ?thesis
  proof (cases cfg)
    case None
    have wf1: "wf_layout cfg g1"
      by (simp add: wf_layout_def None g1_def c1 len)
    have d1: "dest_ok cfg (unat (ram_console_buffer_size g1)) old_buf"
      using dst by (simp add: g1_def c1 data_capacity_def None)
    have nw: "unat (ram_console_buffer_size g1) + trailer_max cfg < 2 ^ 32"
      using unat_lt32 [of "bsz - 12"] by (simp add: g1_def trailer_max_def None)
    from init_finish_effect [OF wf1 dec d1 nw, of kmalloc_ok]
    obtain g' where fin: "init_finish cfg kmalloc_ok g1 old_buf = Some (0, g')"
      and f: "sig (buffer g') = RAM_CONSOLE_SIG" "start (buffer g') = 0" "size_f (buffer g') = 0"
        "registered g'" "ram_console_buffer_size g' = ram_console_buffer_size g1"
        "ram_console_par_buffer g' = ram_console_par_buffer g1"
        "length (data (buffer g')) = length (data (buffer g1))"
        "cfg = None \<longrightarrow> data (buffer g') = data (buffer g1)"
      and lg: "if valid_header (buffer g1) (ram_console_buffer_size g1)
            \<and> (old_buf \<noteq> None \<or> kmalloc_ok)
          then \<exists>log. ram_console_old_log g' = Some log
               \<and> unat (ram_console_old_log_size g')
                   = unat (size_f (buffer g1)) + length (trailer cfg g')
               \<and> take (unat (ram_console_old_log_size g')) log
                   = subrange (data (buffer g')) (unat (start (buffer g1)))
                       (unat (start (buffer g1))
                          + (unat (size_f (buffer g1)) - unat (start (buffer g1))))
                     @ subrange (data (buffer g')) 0 (unat (start (buffer g1)))
                     @ trailer cfg g'
          else ram_console_old_log g' = ram_console_old_log g1
               \<and> ram_console_old_log_size g' = ram_console_old_log_size g1"
      by blast
    have bs1: "ram_console_buffer_size g1 = bsz - 12" by (simp add: g1_def)
    have run: "ram_console_init cfg kmalloc_ok g0 buf bsz old_buf = Some (0, g')"
      using fin c1(1) by (simp add: ram_console_init_def Let_def None bs1 flip: g1_def)
    have wf': "wf_layout cfg g'"
      using wf1 f(5-7) by (rule wf_layout_cong)
    have hs: "header_seen cfg buf bsz = buf"
      by (simp add: header_seen_def None)
    have b1: "buffer g1 = buf" "ram_console_old_log g1 = ram_console_old_log g0"
      "ram_console_old_log_size g1 = ram_console_old_log_size g0"
      by (simp_all add: g1_def)
    have "unat (ram_console_buffer_size g') = data_capacity cfg bsz"
      by (simp add: f(5) g1_def c1 data_capacity_def None)
    moreover have "length (data (buffer g')) = length (data buf)"
      "cfg = None \<longrightarrow> data (buffer g') = data buf"
      using f(7,8) by (simp_all add: g1_def)
    moreover have "if valid_header (header_seen cfg buf bsz) (ram_console_buffer_size g')
            \<and> (old_buf \<noteq> None \<or> kmalloc_ok)
          then recovered cfg (header_seen cfg buf bsz) g'
          else ram_console_old_log g' = ram_console_old_log g0
               \<and> ram_console_old_log_size g' = ram_console_old_log_size g0"
      using lg unfolding hs f(5) recovered_def b1 .
    ultimately show ?thesis
      using run f(1-4) wf' by blast
  next
    case (Some e)
    let ?B = "ECC_BLOCK_SIZE e" and ?E = "ECC_SIZE e"
    define cap1 where "cap1 = unat bsz - 12"
    define r where "r = reservation e cap1"
    from reg Some have ok: "ecc_ok e" and rle: "r \<le> cap1" and big: "cap1 + ?B \<le> 2 ^ 32"
      and big79: "cap1 + 79 < 2 ^ 32"
      by (auto simp add: region_ok_def cap1_def r_def)
    note f = ecc_block_facts [OF ok]
    define rw where "rw = (DIV_ROUND_UP (bsz - 12) (of_nat ?B) + 1) * of_nat ?E"
    have lt32: "cap1 < 2 ^ 32" using big f(1) by simp
    have urw: "unat rw = r"
      unfolding rw_def r_def cap1_def c1(2) [symmetric]
      using ok big rle lt32
      by (intro reservation_unat) (simp_all add: c1(2) cap1_def r_def)
    define capw where "capw = bsz - 12 - rw"
    have ucap: "unat capw = cap1 - r"
      using rle by (simp add: capw_def unat_sub word_le_nat_alt urw c1(2) cap1_def)
    have chk: "\<not> capw > bsz"
      using b12 by (simp add: word_less_nat_alt ucap cap1_def)
    have dc: "data_capacity cfg bsz = cap1 - r"
      by (simp add: data_capacity_def Some cap1_def r_def)
    have rsok: "init_rs_ok e" using rs by (simp add: codec_ok_def Some)
    define g4 where "g4 = g0\<lparr>buffer := buf, ram_console_buffer_size := capw,
        ram_console_par_buffer := unat capw, ram_console_rs_decoder := True,
        ram_console_corrected_bytes := 0, ram_console_bad_blocks := 0\<rparr>"
    have wf4: "wf_layout cfg g4"
    proof -
      have "nblocks ?B (cap1 - r) \<le> nblocks ?B cap1" by (intro nblocks_mono) simp
      then have "(nblocks ?B (cap1 - r) + 1) * ?E \<le> (nblocks ?B cap1 + 1) * ?E"
        by (intro mult_le_mono1) simp
      also have "\<dots> = r" by (simp only: r_def reservation_def)
      finally have "cap1 - r + (nblocks ?B (cap1 - r) + 1) * ?E \<le> cap1"
        using rle by linarith
      then show ?thesis
        using ok big by (simp add: wf_layout_def Some g4_def ucap len cap1_def)
    qed
    note hp = header_par_eq [OF wf4 [unfolded Some]]
    define par where "par = cap1 - r + nblocks ?B (cap1 - r) * ?E"
    have hpar: "header_par e g4 = par" "par + ?E \<le> length (data buf)"
      using hp by (simp_all add: g4_def ucap par_def)
    have dat4: "data (buffer g4) = data buf" by (simp add: g4_def)
    obtain numerr hb where db: "ram_console_decode_bytes e (header_bytes buf)
        (take ?E (drop par (data buf))) = (numerr, hb)"
      by fastforce
    have hs: "header_seen cfg buf bsz = set_header_bytes hb buf"
      by (simp add: header_seen_def Some Let_def dc [unfolded Some] db [unfolded par_def])
    define g5 where "g5 = g4\<lparr>buffer := set_header_bytes hb buf\<rparr>"
    define g6 where "g6 = (if numerr > 0
                                 then g5\<lparr>ram_console_corrected_bytes :=
                                           ram_console_corrected_bytes g5 + numerr\<rparr>
                                 else if numerr < 0
                                 then g5\<lparr>ram_console_bad_blocks :=
                                           ram_console_bad_blocks g5 + 1\<rparr>
                                 else g5)"
    have g6f: "buffer g6 = set_header_bytes hb buf" "ram_console_buffer_size g6 = capw"
      "ram_console_par_buffer g6 = unat capw"
      "ram_console_old_log g6 = ram_console_old_log g0"
      "ram_console_old_log_size g6 = ram_console_old_log_size g0"
      by (simp_all add: g6_def g5_def g4_def)
    have dat6: "data (buffer g6) = data buf"
      by (simp add: g6f set_header_bytes_def)
    have wf6: "wf_layout cfg g6"
      using wf4 by (rule wf_layout_cong) (simp_all add: g6f g4_def set_header_bytes_def)
    have d6: "dest_ok cfg (unat (ram_console_buffer_size g6)) old_buf"
      using dst by (simp add: g6f ucap dc)
    have nw: "unat (ram_console_buffer_size g6) + trailer_max cfg < 2 ^ 32"
      using big79 by (simp add: g6f ucap trailer_max_def Some)
    from init_finish_effect [OF wf6 dec d6 nw, of kmalloc_ok]
    obtain g' where fin: "init_finish cfg kmalloc_ok g6 old_buf = Some (0, g')"
      and ff: "sig (buffer g') = RAM_CONSOLE_SIG" "start (buffer g') = 0" "size_f (buffer g') = 0"
        "registered g'" "ram_console_buffer_size g' = ram_console_buffer_size g6"
        "ram_console_par_buffer g' = ram_console_par_buffer g6"
        "length (data (buffer g')) = length (data (buffer g6))"
      and lg: "if valid_header (buffer g6) (ram_console_buffer_size g6)
            \<and> (old_buf \<noteq> None \<or> kmalloc_ok)
          then \<exists>log. ram_console_old_log g' = Some log
               \<and> unat (ram_console_old_log_size g')
                   = unat (size_f (buffer g6)) + length (trailer cfg g')
               \<and> take (unat (ram_console_old_log_size g')) log
                   = subrange (data (buffer g')) (unat (start (buffer g6)))
                       (unat (start (buffer g6))
                          + (unat (size_f (buffer g6)) - unat (start (buffer g6))))
                     @ subrange (data (buffer g')) 0 (unat (start (buffer g6)))
                     @ trailer cfg g'
          else ram_console_old_log g' = ram_console_old_log g6
               \<and> ram_console_old_log_size g' = ram_console_old_log_size g6"
      by blast
    have pk: "peek (data buf) par ?E = Some (take ?E (drop par (data buf)))"
      using hpar(2) by (simp add: peek_def)
    have "ram_console_init cfg kmalloc_ok g0 buf bsz old_buf
        = init_finish cfg kmalloc_ok g6 old_buf"
      using c1(1) chk f(1) pk db hpar(1)
      unfolding g6_def g5_def g4_def capw_def rw_def
      by (cases "numerr > 0"; cases "numerr < 0")
        (simp_all add: ram_console_init_def Let_def Some rsok)
    with fin have run: "ram_console_init cfg kmalloc_ok g0 buf bsz old_buf = Some (0, g')"
      by simp
    have wf': "wf_layout cfg g'"
      using wf6 ff(5-7) by (rule wf_layout_cong)
    have "unat (ram_console_buffer_size g') = data_capacity cfg bsz"
      by (simp add: ff(5) g6f ucap dc)
    moreover have "length (data (buffer g')) = length (data buf)"
      using ff(7) by (simp add: dat6)
    moreover have "if valid_header (header_seen cfg buf bsz) (ram_console_buffer_size g')
            \<and> (old_buf \<noteq> None \<or> kmalloc_ok)
          then recovered cfg (header_seen cfg buf bsz) g'
          else ram_console_old_log g' = ram_console_old_log g0
               \<and> ram_console_old_log_size g' = ram_console_old_log_size g0"
      using lg unfolding hs ff(5) recovered_def g6f .
    ultimately show ?thesis
      using run ff(1-4) wf' Some by blast
  qed
qed

lemma init_abort:
  assumes ins: "insufficient_capacity cfg bsz" and fits: "reservation_fits cfg bsz"
  shows "\<exists>cap. ram_console_init cfg kmalloc_ok g0 buf bsz old_buf
           = Some (0, g0\<lparr>buffer := buf, ram_console_buffer_size := cap\<rparr>)"
proof (cases "unat bsz < 12")
  case True
  then have "bsz - 12 > bsz" by (rule init_capacity_short)
  then show ?thesis
    by (intro exI [of _ "bsz - 12"]) (simp add: ram_console_init_def Let_def)
next
  case False
  then have b12: "12 \<le> unat bsz" by simp
  note c1 = init_capacity_plain [OF b12]
  from ins False obtain e where Some: "cfg = Some e"
    and small: "unat bsz - 12 < reservation e (unat bsz - 12)"
    by (auto simp: insufficient_capacity_def split: option.splits)
  from fits Some have ok: "ecc_ok e" and big: "unat bsz - 12 + ECC_BLOCK_SIZE e \<le> 2 ^ 32"
    and r12: "reservation e (unat bsz - 12) + 12 < 2 ^ 32"
    by (auto simp: reservation_fits_def)
  define rw where "rw = (DIV_ROUND_UP (bsz - 12) (of_nat (ECC_BLOCK_SIZE e)) + 1)
      * of_nat (ECC_SIZE e)"
  have urw: "unat rw = reservation e (unat bsz - 12)"
    unfolding rw_def c1(2) [symmetric]
    using ok big r12 by (intro reservation_unat) (simp_all add: c1(2))
  have "unat (bsz - 12 - rw)
      = (if unat rw \<le> unat (bsz - 12) then unat (bsz - 12) - unat rw
         else unat (bsz - 12) + 2 ^ 32 - unat rw)"
    by (subst unat_sub_if') simp
  then have "unat (bsz - 12 - rw) = unat bsz - 12 + 2 ^ 32 - reservation e (unat bsz - 12)"
    using small unfolding urw c1(2) by simp
  then have chk: "bsz - 12 - rw > bsz"
    using r12 b12 by (simp add: word_less_nat_alt)
  have "ram_console_init cfg kmalloc_ok g0 buf bsz old_buf
      = Some (0, g0\<lparr>buffer := buf, ram_console_buffer_size := bsz - 12 - rw\<rparr>)"
    using c1(1) chk ecc_block_facts(1) [OF ok] unfolding rw_def
    by (simp add: ram_console_init_def Let_def Some)
  then show ?thesis by blast
qed

lemma init_finish_returns_0:
  assumes "init_finish cfg kmalloc_ok g old_buf = Some (r, g')"
  shows "r = 0"
  using assms by (auto simp: init_finish_def bind_eq_Some_conv)

lemma init_returns_0:
  assumes "ram_console_init cfg kmalloc_ok g0 buf bsz old_buf = Some (r, g')"
  shows "r = 0"
proof (cases "bsz - 12 > bsz")
  case True
  with assms show ?thesis by (simp add: ram_console_init_def Let_def)
next
  case small: False
  show ?thesis
  proof (cases cfg)
    case None
    with assms small show ?thesis
      by (auto simp: ram_console_init_def Let_def dest: init_finish_returns_0)
  next
    case (Some e)
    define capw where "capw = bsz - 12
        - (DIV_ROUND_UP (bsz - 12) (of_nat (ECC_BLOCK_SIZE e)) + 1) * of_nat (ECC_SIZE e)"
    consider "ECC_BLOCK_SIZE e = 0" | "ECC_BLOCK_SIZE e \<noteq> 0" "capw > bsz"
      | "ECC_BLOCK_SIZE e \<noteq> 0" "\<not> capw > bsz" "\<not> init_rs_ok e"
      | "ECC_BLOCK_SIZE e \<noteq> 0" "\<not> capw > bsz" "init_rs_ok e"
      by blast
    then show ?thesis
    proof cases
      case 1
      with assms small Some show ?thesis
        by (simp add: ram_console_init_def Let_def)
    next
      case 2
      with assms small Some show ?thesis
        by (simp add: ram_console_init_def Let_def capw_def)
    next
      case 3
      with assms small Some show ?thesis
        by (simp add: ram_console_init_def Let_def capw_def)
    next
      case 4
      with assms small Some show ?thesis
        unfolding capw_def
        by (auto simp: ram_console_init_def Let_def case_prod_beta bind_eq_Some_conv
            dest: init_finish_returns_0)
    qed
  qed
qed

lemma probe_returns_init:
  assumes "probe_resources pdev = Inr (Some res, Some mem_size)" and "mem_size \<noteq> 0"
    and "res_flags res AND IORESOURCE_MEM \<noteq> 0"
    and "ioremap (res_start res) (res_end res - res_start res + 1 - PAGE_SIZE * 10) = Some buf"
  shows "ram_console_driver_probe cfg kmalloc_ok ioremap g pdev
           = ram_console_init cfg kmalloc_ok g buf
               (res_end res - res_start res + 1 - PAGE_SIZE * 10) None"
  using assms by (simp add: ram_console_driver_probe_def probe_map_def Let_def)

lemma ecc_ok_xor: "ecc_ok xor_ecc"
  unfolding ecc_ok_def by (intro conjI exI [of _ 2]) (simp_all add: xor_ecc_def)

lemma ecc_ok_xor_128: "ecc_ok xor_ecc_128"
  unfolding ecc_ok_def by (intro conjI exI [of _ 7]) (simp_all add: xor_ecc_128_def xor_ecc_def)

lemma decoder_ok_xor: "decoder_ok (Some xor_ecc)"
  by (simp add: decoder_ok_def xor_ecc_def)

lemma xor_ecc_fields:
  "ECC_BLOCK_SIZE xor_ecc = 4" "ECC_SIZE xor_ecc = 2" "init_rs_ok xor_ecc"
  "ECC_BLOCK_SIZE xor_ecc_128 = 128" "ECC_SIZE xor_ecc_128 = 16" "init_rs_ok xor_ecc_128"
  by (simp_all add: xor_ecc_def xor_ecc_128_def)

lemma region_ok_xor_40: "region_ok (Some xor_ecc) region40_valid 40"
  by (simp add: region_ok_def ecc_ok_xor reservation_def nblocks_def region40_valid_def
      region_def xor_ecc_fields)

lemma uint_lt_of_unat: "unat (x::u32) < 2 ^ 31 \<Longrightarrow> uint x < 2 ^ 31"
proof -
  assume "unat x < 2 ^ 31"
  then have "int (unat x) < int (2 ^ 31)" by (simp only: of_nat_less_iff)
  then show ?thesis by simp
qed

lemma sint_small:
  assumes "unat (x::u32) < 2 ^ 31"
  shows "sint x = int (unat x)"
proof -
  have a: "uint x < 2 ^ 31"
    using assms by (rule uint_lt_of_unat)
  have "0 \<le> uint x" by simp
  moreover have "(- (2 ^ 31) :: int) \<le> 0" by simp
  ultimately have b: "- (2 ^ 31) \<le> uint x" by (rule order_trans [rotated])
  have "sint x = signed_take_bit 31 (uint x)"
    by (simp add: sint_uint)
  also have "\<dots> = uint x"
    using b a by (rule signed_take_bit_int_eq_self)
  finally show ?thesis by simp
qed

lemma unat_word_of_int_small:
  assumes "0 \<le> i" "i < 2 ^ 32"
  shows "unat (word_of_int i :: u32) = nat i"
proof -
  have "uint (word_of_int i :: u32) = i"
    using assms by (simp add: uint_word_of_int_eq take_bit_int_eq_self)
  then have "nat (uint (word_of_int i :: u32)) = nat i" by simp
  then show ?thesis by simp
qed

lemma unat_min: "unat (min a b) = min (unat a) (unat (b::u32))"
  by (simp add: min_def word_le_nat_alt)

lemma length_recovered_log: "old_log_ok g \<Longrightarrow> length (recovered_log g) = unat (ram_console_old_log_size g)"
  by (auto simp: old_log_ok_def recovered_log_def split: option.splits)

lemma rl5: "recovered_log recovered5 = [12, 13, 14, 10, 11]"
  by (simp add: recovered_log_def recovered5_def globals0_def)

lemma init_codec_failure:
  assumes reg: "region_ok (Some e) buf bsz" and rs: "\<not> init_rs_ok e"
  shows "\<exists>cap par. ram_console_init (Some e) kmalloc_ok g0 buf bsz old_buf
           = Some (0, g0\<lparr>buffer := buf, ram_console_buffer_size := cap,
                          ram_console_par_buffer := par, ram_console_rs_decoder := False\<rparr>)"
proof -
  from reg have b12: "12 \<le> unat bsz" and ok: "ecc_ok e"
    and rle: "reservation e (unat bsz - 12) \<le> unat bsz - 12"
    and big: "unat bsz - 12 + ECC_BLOCK_SIZE e \<le> 2 ^ 32"
    by (auto simp: region_ok_def)
  note c1 = init_capacity_plain [OF b12]
  note f = ecc_block_facts [OF ok]
  define rw where "rw = (DIV_ROUND_UP (bsz - 12) (of_nat (ECC_BLOCK_SIZE e)) + 1)
      * of_nat (ECC_SIZE e)"
  have lt32: "unat bsz - 12 < 2 ^ 32" using big f(1) by simp
  have urw: "unat rw = reservation e (unat bsz - 12)"
    unfolding rw_def c1(2) [symmetric]
    using ok big rle lt32 by (intro reservation_unat) (simp_all add: c1(2))
  have "unat (bsz - 12 - rw) = unat bsz - 12 - reservation e (unat bsz - 12)"
    using rle by (simp add: unat_sub word_le_nat_alt urw c1(2))
  then have chk: "\<not> bsz - 12 - rw > bsz"
    using b12 by (simp add: word_less_nat_alt)
  have "ram_console_init (Some e) kmalloc_ok g0 buf bsz old_buf
      = Some (0, g0\<lparr>buffer := buf, ram_console_buffer_size := bsz - 12 - rw,
                     ram_console_par_buffer := unat (bsz - 12 - rw),
                     ram_console_rs_decoder := False\<rparr>)"
    using c1(1) chk f(1) rs unfolding rw_def
    by (simp add: ram_console_init_def Let_def)
  then show ?thesis by blast
qed

lemma init_example_abort:
  "ram_console_init (Some xor_ecc_128) True globals0 region40_valid 40 None
     = Some (0, globals0\<lparr>buffer := region40_valid, ram_console_buffer_size := 4294967292\<rparr>)"
  by (simp add: ram_console_init_def Let_def xor_ecc_fields DIV_ROUND_UP_def)

lemma scenario_writes:
  assumes wf: "wf_layout cfg g" and st: "start (buffer g) = 0" and sz: "size_f (buffer g) = 0"
    and cap: "unat (ram_console_buffer_size g) = 1012"
  shows "\<exists>g'. ram_console_writes cfg g [text_AAAA, text_B1024] = Some g'
      \<and> unat (start (buffer g')) = 4 \<and> unat (size_f (buffer g')) = 1012
      \<and> logical_content g' = replicate 1012 0x42"
proof -
  have h0: "holds cfg g []" using wf st sz by (rule holds_fresh)
  have c1: "unat (of_nat (length text_AAAA) :: u32) = length text_AAAA"
    by (simp add: text_AAAA_def)
  have c2: "unat (of_nat (length text_B1024) :: u32) = length text_B1024"
    by (simp add: text_B1024_def)
  have i0: "hdr_inv g" using st sz by (simp add: hdr_inv_def)
  from holds_write [OF h0 c1]
  obtain g1 where w1: "ram_console_write cfg g text_AAAA (of_nat (length text_AAAA)) = Some g1"
    and b1: "ram_console_buffer_size g1 = ram_console_buffer_size g"
    and h1: "holds cfg g1 ([] @ text_AAAA)"
    by blast
  from ram_console_write_header [OF wf i0 c1] w1
  have s1: "unat (start (buffer g1)) = 4"
    using st cap by (auto simp: write_start_def text_AAAA_def)
  have wf1: "wf_layout cfg g1" and i1: "hdr_inv g1"
    using h1 by (simp_all add: holds_def Let_def)
  from holds_write [OF h1 c2]
  obtain g2 where w2: "ram_console_write cfg g1 text_B1024 (of_nat (length text_B1024)) = Some g2"
    and b2: "ram_console_buffer_size g2 = ram_console_buffer_size g1"
    and h2: "holds cfg g2 (([] @ text_AAAA) @ text_B1024)"
    by blast
  from ram_console_write_header [OF wf1 i1 c2] w2
  have s2: "unat (start (buffer g2)) = 4"
    using s1 cap b1 by (auto simp: write_start_def text_B1024_def)
  have z2: "unat (size_f (buffer g2)) = 1012"
    using h2 cap b1 b2 by (simp add: holds_def Let_def text_AAAA_def text_B1024_def)
  have "logical_content g2 = replicate 1012 0x42"
    using holds_content [OF h2] cap b1 b2 by (simp add: text_AAAA_def text_B1024_def)
  with w1 w2 s2 z2 show ?thesis by simp
qed

lemma store1012_facts:
  "wf_layout None store1012" "start (buffer store1012) = 0" "size_f (buffer store1012) = 0"
  "unat (ram_console_buffer_size store1012) = 1012"
  by (simp_all add: store1012_def wf_layout_def globals0_def region_def)

lemma written_posI:
  assumes "x < cap" "t < n" "st + t = x \<or> st + t = x + cap"
  shows "written_pos cap st n x"
proof -
  from assms(3) have "(st + t) mod cap = x"
    using assms(1) by auto
  with assms(1,2) show ?thesis
    unfolding written_pos_def by (intro conjI exI [of _ t]) simp_all
qed

lemma write_data_nth:
  assumes len: "length dat = cap" and st: "st \<le> cap" and n: "length s \<le> cap"
    and i: "i < cap" and nw: "\<not> written_pos cap st (length s) i"
  shows "write_data cap st dat s ! i = dat ! i"
proof (cases "st + length s \<le> cap")
  case True
  have out: "i < st \<or> st + length s \<le> i"
  proof (rule ccontr)
    assume "\<not> (i < st \<or> st + length s \<le> i)"
    then have "i - st < length s" "st + (i - st) = i" by auto
    with i have "written_pos cap st (length s) i"
      by (intro written_posI [of _ _ "i - st"]) simp_all
    with nw show False by simp
  qed
  then show ?thesis
    using True len i by (auto simp: write_data_def nth_append)
next
  case False
  define c1 where "c1 = st + length s - cap"
  have c1: "c1 \<le> st" "length s - (cap - st) = c1" "cap - st < length s"
    using False st n by (simp_all add: c1_def)
  have mid: "c1 \<le> i \<and> i < st"
  proof (rule ccontr)
    assume a: "\<not> (c1 \<le> i \<and> i < st)"
    have "written_pos cap st (length s) i"
    proof (cases "i < c1")
      case True
      then have "i + cap - st < length s" "st + (i + cap - st) = i + cap"
        using st by (simp_all add: c1_def)
      with i show ?thesis
        by (intro written_posI [of _ _ "i + cap - st"]) simp_all
    next
      case False
      with a have "st \<le> i" by simp
      then have "i - st < length s" "st + (i - st) = i"
        using i c1(3) by simp_all
      with i show ?thesis
        by (intro written_posI [of _ _ "i - st"]) simp_all
    qed
    with nw show False by simp
  qed
  then show ?thesis
    using False len st c1 by (auto simp: write_data_def nth_append simp flip: c1_def)
qed

lemma loop_keeps_slot:
  assumes E: "0 < ECC_SIZE e" and i: "cap \<le> i"
  shows "loop_keeps (Some e) cap st n i
           \<longleftrightarrow> ((i - cap) div ECC_SIZE e < st div ECC_BLOCK_SIZE e
                \<or> (st div ECC_BLOCK_SIZE e < (i - cap) div ECC_SIZE e
                    \<and> st + n \<le> (i - cap) div ECC_SIZE e * ECC_BLOCK_SIZE e))"
proof -
  let ?k = "(i - cap) div ECC_SIZE e" and ?j = "st div ECC_BLOCK_SIZE e"
  have a: "i < cap + ?j * ECC_SIZE e \<longleftrightarrow> ?k < ?j"
    using E i by (auto simp: div_less_iff_less_mult)
  have "?j + 1 \<le> ?k \<longleftrightarrow> (?j + 1) * ECC_SIZE e \<le> i - cap"
    using E by (simp only: less_eq_div_iff_mult_less_eq)
  then have b: "cap + ?j * ECC_SIZE e + ECC_SIZE e \<le> i \<longleftrightarrow> ?j < ?k"
    using i by (auto simp: algebra_simps)
  show ?thesis
    unfolding loop_keeps_def option.case a b ..
qed

lemma hdr_slot_iff:
  assumes E: "0 < ECC_SIZE e" and i: "cap \<le> i"
  shows "hdr_slot (Some e) cap i
           \<longleftrightarrow> (i - cap) div ECC_SIZE e = nblocks (ECC_BLOCK_SIZE e) cap"
proof -
  let ?N = "nblocks (ECC_BLOCK_SIZE e) cap"
  have "(i - cap) div ECC_SIZE e = ?N
      \<longleftrightarrow> ?N * ECC_SIZE e \<le> i - cap \<and> i - cap < ?N * ECC_SIZE e + ECC_SIZE e"
  proof
    assume eq: "(i - cap) div ECC_SIZE e = ?N"
    have "(i - cap) div ECC_SIZE e * ECC_SIZE e \<le> i - cap"
      by (rule div_times_less_eq_dividend)
    moreover have "i - cap < ECC_SIZE e + (i - cap) div ECC_SIZE e * ECC_SIZE e"
      using E by (rule dividend_less_div_times)
    ultimately show "?N * ECC_SIZE e \<le> i - cap \<and> i - cap < ?N * ECC_SIZE e + ECC_SIZE e"
      unfolding eq by linarith
  next
    assume "?N * ECC_SIZE e \<le> i - cap \<and> i - cap < ?N * ECC_SIZE e + ECC_SIZE e"
    then show "(i - cap) div ECC_SIZE e = ?N"
      by (intro div_nat_eqI) (simp_all add: mult.commute)
  qed
  then show ?thesis
    using i by (auto simp: hdr_slot_def algebra_simps)
qed

lemma block_writtenI:
  assumes "x < cap" "t < n" "st + t = x \<or> st + t = x + cap" "k * B \<le> x" "x < k * B + B"
  shows "block_written B cap st n k"
  unfolding block_written_def
  using assms written_posI [OF assms(1-3)] by blast

lemma may_change_keeps:
  assumes ok: "ecc_ok e" and st: "st \<le> cap" and n: "n \<le> cap" and i: "cap \<le> i"
    and nm: "\<not> may_change (Some e) cap st n i"
  shows "write_keeps (Some e) cap st n i"
proof -
  let ?B = "ECC_BLOCK_SIZE e" and ?E = "ECC_SIZE e"
  define k where "k = (i - cap) div ?E"
  have B: "0 < ?B" using ok by (rule ecc_block_facts(1))
  have E: "0 < ?E" using ok by (simp add: ecc_ok_def)
  from nm i have nb: "\<not> block_written ?B cap st n k" and kj: "k \<noteq> st div ?B"
    and kN: "k \<noteq> nblocks ?B cap"
    by (simp_all add: may_change_def Let_def k_def)
  have hdr: "\<not> hdr_slot (Some e) cap i"
    using kN by (simp add: hdr_slot_iff [OF E i] k_def)
  have above: "st < k * ?B" if "st div ?B < k"
  proof -
    from that have "(st div ?B + 1) * ?B \<le> k * ?B"
      by (intro mult_le_mono1) simp
    moreover have "st < (st div ?B + 1) * ?B"
      using B by (simp add: dividend_less_times_div mult.commute)
    ultimately show ?thesis by linarith
  qed
  show ?thesis
  proof (cases "st + n \<le> cap")
    case True
    have "loop_keeps (Some e) cap st n i"
      unfolding loop_keeps_slot [OF E i] k_def [symmetric]
    proof (rule ccontr)
      assume a: "\<not> (k < st div ?B \<or> (st div ?B < k \<and> st + n \<le> k * ?B))"
      with kj have gt: "st div ?B < k" and lt: "k * ?B < st + n" by auto
      from above [OF gt] lt True B
      have "block_written ?B cap st n k"
        by (intro block_writtenI [of "k * ?B" _ "k * ?B - st"]) simp_all
      with nb show False by simp
    qed
    with hdr True show ?thesis by (simp add: write_keeps_def)
  next
    case False
    then have pos: "0 < cap" using st n by simp
    have first: "loop_keeps (Some e) cap st (cap - st) i"
      unfolding loop_keeps_slot [OF E i] k_def [symmetric]
    proof (rule ccontr)
      assume a: "\<not> (k < st div ?B \<or> (st div ?B < k \<and> st + (cap - st) \<le> k * ?B))"
      with kj st have gt: "st div ?B < k" and lt: "k * ?B < cap" by auto
      from above [OF gt] lt False B
      have "block_written ?B cap st n k"
        by (intro block_writtenI [of "k * ?B" _ "k * ?B - st"]) simp_all
      with nb show False by simp
    qed
    have second: "loop_keeps (Some e) cap 0 (st + n - cap) i"
      unfolding loop_keeps_slot [OF E i] k_def [symmetric]
    proof (rule ccontr)
      assume a: "\<not> (k < 0 div ?B \<or> (0 div ?B < k \<and> 0 + (st + n - cap) \<le> k * ?B))"
      then have lt: "k = 0 \<or> k * ?B < st + n - cap" by auto
      then have x: "k * ?B < cap" "k * ?B + cap - st < n"
        using pos False st n by auto
      have "block_written ?B cap st n k"
        using x B st
        by (intro block_writtenI [of "k * ?B" _ "k * ?B + cap - st"]) simp_all
      with nb show False by simp
    qed
    from hdr first second False show ?thesis by (simp add: write_keeps_def)
  qed
qed

lemmas write_simps = ram_console_write_def ram_console_update_def ram_console_update_header_def
  memcpy_def peek_def Let_def

lemmas init_simps = ram_console_init_def init_finish_def ram_console_save_old_def
  RAM_CONSOLE_SIG_def region_def globals0_def

lemma upt_0_2: "[0..<2] = [0, 1]"
  by (simp add: numeral_2_eq_2)

lemma replicate_2: "replicate 2 x = [x, x]"
  by (simp add: numeral_2_eq_2)

lemma may_change_spec:
  assumes n: "0 < n" and st: "st < cap"
    and B: "\<forall>e. cfg = Some e \<longrightarrow> 0 < ECC_BLOCK_SIZE e"
  shows "may_change cfg cap st n i = spec_may_change cfg cap st n i"
proof (cases cfg)
  case None
  then show ?thesis by (simp add: may_change_def spec_may_change_def)
next
  case (Some e)
  with B have pos: "0 < ECC_BLOCK_SIZE e" by simp
  have "st div ECC_BLOCK_SIZE e * ECC_BLOCK_SIZE e \<le> st"
    by (rule div_times_less_eq_dividend)
  moreover have "st < ECC_BLOCK_SIZE e + st div ECC_BLOCK_SIZE e * ECC_BLOCK_SIZE e"
    using pos by (rule dividend_less_div_times)
  ultimately have "block_written (ECC_BLOCK_SIZE e) cap st n (st div ECC_BLOCK_SIZE e)"
    using n st by (intro block_writtenI [of st _ 0]) simp_all
  then show ?thesis
    using Some by (auto simp: may_change_def spec_may_change_def Let_def)
qed

lemma store_ecc_facts:
  "wf_layout (Some xor_ecc) store_ecc"
  "unat (ram_console_buffer_size store_ecc) = 12"
  "unat (start (buffer store_ecc)) = 0"
  "length (data (buffer store_ecc)) = 28"
  by (simp_all add: store_ecc_def wf_layout_def globals0_def region_def ecc_ok_xor
      xor_ecc_fields nblocks_def)

lemma init_store_ecc:
  "ram_console_init (Some xor_ecc) True globals0 region40 40 None = Some (0, store_ecc)"
  apply (simp add: init_simps store_ecc_def region40_def xor_ecc_fields DIV_ROUND_UP_def
        peek_def header_par_def Let_def)
  apply (simp add: ram_console_decode_bytes_def xor_ecc_def header_bytes_def
        set_header_bytes_def)
  apply (simp add: le32_def of_le32_def)
  done

lemma replicate_28:
  "replicate 28 (0xEE::byte)
     = [0xEE, 0xEE, 0xEE, 0xEE, 0xEE, 0xEE, 0xEE, 0xEE, 0xEE, 0xEE, 0xEE, 0xEE, 0xEE, 0xEE,
        0xEE, 0xEE, 0xEE, 0xEE, 0xEE, 0xEE, 0xEE, 0xEE, 0xEE, 0xEE, 0xEE, 0xEE, 0xEE, 0xEE]"
  by (simp add: numeral_eq_Suc)

lemma write_store_ecc_empty:
  "ram_console_write (Some xor_ecc) store_ecc [] 0
     = Some (store_ecc\<lparr>buffer := region RAM_CONSOLE_SIG 0 0
         [0xEE, 0xEE, 0xEE, 0xEE, 0xEE, 0xEE, 0xEE, 0xEE, 0xEE, 0xEE, 0xEE, 0xEE, 0, 0,
          0xEE, 0xEE, 0xEE, 0xEE, 2, 2, 0xEE, 0xEE, 0xEE, 0xEE, 0xEE, 0xEE, 0xEE, 0xEE]\<rparr>)"
  unfolding store_ecc_def replicate_28
  by (simp add: write_simps globals0_def region_def xor_ecc_fields
      update_loop.simps ram_console_encode_rs8_def ram_console_encode_bytes_def
      header_par_def DIV_ROUND_UP_def header_bytes_def le32_def RAM_CONSOLE_SIG_def
      xor_ecc_def upt_0_2 replicate_2)







lemma decoded_data_None: "decoded_data None cap s dat = dat"
  by (simp add: decoded_data_def)



lemma dec_nat_nonempty: "dec_nat n \<noteq> []"
  by (subst dec_nat.simps) simp


lemma prefix_ecc_fields:
  "ECC_BLOCK_SIZE prefix_ecc = 4" "ECC_SIZE prefix_ecc = 2" "init_rs_ok prefix_ecc"
  by (simp_all add: prefix_ecc_def)



lemma decoded_data_intact:
  assumes B: "0 < ECC_BLOCK_SIZE e" and cap: "cap \<le> length dat"
    and same: "\<forall>k<nblocks (ECC_BLOCK_SIZE e) s.
                 snd (decoded_block e cap dat k) = block_bytes e cap dat k"
  shows "decoded_data (Some e) cap s dat = dat"
proof (rule nth_equalityI)
  show "length (decoded_data (Some e) cap s dat) = length dat"
    by (simp add: decoded_data_def)
next
  fix i assume "i < length (decoded_data (Some e) cap s dat)"
  then have i: "i < length dat" by (simp add: decoded_data_def)
  let ?B = "ECC_BLOCK_SIZE e"
  have "snd (decoded_block e cap dat (i div ?B)) ! (i mod ?B) = dat ! i"
    if ic: "i < cap" and lt: "i div ?B * ?B < s"
  proof -
    have "i div ?B < nblocks ?B s" using B lt by (intro slot_lt_nblocks)
    with same have "snd (decoded_block e cap dat (i div ?B)) = block_bytes e cap dat (i div ?B)"
      by simp
    moreover have dm: "i div ?B * ?B + i mod ?B = i" by simp
    moreover from dm have "i mod ?B < cap - i div ?B * ?B" using ic by linarith
    moreover have "i mod ?B < ?B" using B by simp
    moreover have "drop (i div ?B * ?B) dat ! (i mod ?B) = dat ! (i div ?B * ?B + i mod ?B)"
      using i dm by (intro nth_drop) linarith
    ultimately show ?thesis
      by (simp add: block_bytes_def)
  qed
  with i show "decoded_data (Some e) cap s dat ! i = dat ! i"
    by (simp add: decoded_data_def)
qed




lemma strbuf_2_0:
  "strbuf 2 0
     = [10, 50, 32, 67, 111, 114, 114, 101, 99, 116, 101, 100, 32, 98, 121, 116, 101, 115, 44,
        32, 48, 32, 117, 110, 114, 101, 99, 111, 118, 101, 114, 97, 98, 108, 101, 32, 98, 108,
        111, 99, 107, 115, 10]"
  by (simp add: strbuf_def bytes_of_def dec_int_def dec_nat.simps)

lemma init_region40_fix:
  "ram_console_init (Some prefix_ecc) True globals0 region40_fix 40 None
     = Some (0, globals0\<lparr>buffer := region RAM_CONSOLE_SIG 0 0
                   [10, 11, 12, 13, 14, 15, 16, 17, 18, 19, 20, 21, 10, 11, 14, 15, 18, 19,
                    0x44, 0x42, 0, 0, 0, 0, 0, 0, 0, 0],
                 ram_console_buffer_size := 12, ram_console_par_buffer := 12,
                 ram_console_rs_decoder := True, ram_console_corrected_bytes := 2,
                 ram_console_old_log := Some ([13, 14, 15, 16, 17, 18, 10, 11, 12] @ strbuf 2 0),
                 ram_console_old_log_size := 52, registered := True\<rparr>)"
  apply (simp add: ram_console_init_def region40_fix_def region_def globals0_def
      prefix_ecc_fields DIV_ROUND_UP_def peek_def header_par_def Let_def)
  apply (simp add: ram_console_decode_bytes_def prefix_ecc_def header_bytes_def
      set_header_bytes_def upt_0_2)
  apply (simp add: le32_def of_le32_def)
  apply (simp add: init_finish_def RAM_CONSOLE_SIG_def ram_console_save_old_def
      decode_loop.simps Let_def)
  apply (simp add: ram_console_decode_rs8_def peek_def ram_console_decode_bytes_def upt_0_2
      memcpy_def decode_loop.simps)
  apply (simp add: strbuf_2_0 memcpy_def)
  apply (simp add: numeral_eq_Suc)
  done

lemma header_seen_xor_40: "header_seen (Some xor_ecc) region40 40 = region40"
  apply (simp add: header_seen_def ram_console_decode_bytes_def xor_ecc_def
      set_header_bytes_def header_bytes_def region40_def region_def)
  apply (simp add: le32_def of_le32_def)
  done

lemma region_ok_sufficient:
  assumes "region_ok cfg buf bsz"
  shows "\<not> insufficient_capacity cfg bsz"
  using assms by (auto simp: region_ok_def insufficient_capacity_def split: option.splits)

section \<open>The claims\<close>

subsection \<open>C1: the ring keeps the last bytes written\<close>

text \<open>
  C1: for every sequence of writes through \<open>ram_console_write\<close> to a freshly initialised
  store (with or without parity) whose total length exceeds the data capacity, all the
  writes return, and the logical content afterwards (the \<open>size\<close> bytes that end at
  \<open>start\<close>, read circularly) is exactly the last \<open>data_capacity\<close> bytes written, in
  order. A single write of more than \<open>data_capacity\<close> bytes is the case of a sequence that
  ends with it: only the last \<open>data_capacity\<close> bytes of its input are kept.
\<close>

theorem ring_keeps_last_bytes:
  assumes "wf_layout cfg g" and "start (buffer g) = 0" and "size_f (buffer g) = 0"
    and "\<forall>s\<in>set ss. length s < 2 ^ 32"
    and "unat (ram_console_buffer_size g) < length (concat ss)"
  shows "\<exists>g'. ram_console_writes cfg g ss = Some g'
      \<and> logical_content g'
          = drop (length (concat ss) - unat (ram_console_buffer_size g)) (concat ss)
      \<and> length (logical_content g') = unat (ram_console_buffer_size g)"
proof -
  have "holds cfg g []"
    using assms(1-3) by (rule holds_fresh)
  from holds_writes [OF this assms(4)]
  obtain g' where g': "ram_console_writes cfg g ss = Some g'"
    "ram_console_buffer_size g' = ram_console_buffer_size g" "holds cfg g' (concat ss)"
    by auto
  from holds_content [OF g'(3)] g'(2)
  have "logical_content g'
      = drop (length (concat ss) - unat (ram_console_buffer_size g)) (concat ss)"
    by simp
  with g'(1) assms(5) show ?thesis by simp
qed

text \<open>
  Witness for C1: two writes of 3 bytes to the fresh store of capacity 4 leave the last
  4 bytes.
\<close>

theorem ring_keeps_last_bytes_witness:
  "wf_layout None store4 \<and> start (buffer store4) = 0 \<and> size_f (buffer store4) = 0
   \<and> length [1, 2, 3 :: byte] < 2 ^ 32 \<and> length [4, 5, 6 :: byte] < 2 ^ 32
   \<and> unat (ram_console_buffer_size store4) < length (concat [[1, 2, 3], [4, 5, 6 :: byte]])
   \<and> (\<exists>g'. ram_console_writes None store4 [[1, 2, 3], [4, 5, 6]] = Some g'
        \<and> logical_content g' = [3, 4, 5, 6])"
proof -
  have h: "wf_layout None store4" "start (buffer store4) = 0" "size_f (buffer store4) = 0"
    "\<forall>s\<in>set [[1, 2, 3], [4, 5, 6 :: byte]]. length s < 2 ^ 32"
    "unat (ram_console_buffer_size store4) < length (concat [[1, 2, 3], [4, 5, 6 :: byte]])"
    by (simp_all add: store4_def wf_layout_def globals0_def region_def)
  from ring_keeps_last_bytes [OF h] h show ?thesis
    by (auto simp add: store4_def globals0_def region_def)
qed

subsection \<open>C2: the header after a write\<close>

text \<open>
  C2 as stated fails. In a region of 16 bytes without parity the data capacity is 4;
  the store that \<open>ram_console_init\<close> leaves satisfies the header invariants of the
  specification, and a write of 4 bytes at \<open>start = 0\<close> leaves \<open>start = 4\<close>, which is
  the capacity, where the claim gives \<open>(0 + 4) mod 4 = 0\<close> and \<open>start < 4\<close>:
  \<open>buffer->start += count\<close> is not reduced, the next write wraps it.
\<close>

theorem write_header_counterexample:
  "ram_console_init None True globals0 (region 0 0 0 [0, 0, 0, 0]) 16 None = Some (0, store4)
   \<and> wf_layout None store4 \<and> spec_hdr_inv store4
   \<and> map_option (unat \<circ> start \<circ> buffer) (ram_console_write None store4 [1, 2, 3, 4] 4)
       = Some 4
   \<and> (unat (start (buffer store4)) + min 4 (unat (ram_console_buffer_size store4)))
         mod unat (ram_console_buffer_size store4) = 0"
  by (simp add: init_simps write_simps store4_def wf_layout_def spec_hdr_inv_def)

text \<open>
  C2, amended: for every write of \<open>n\<close> bytes to a live store (\<open>start\<close> at most the
  capacity, \<open>size\<close> equal to \<open>start\<close> or to the capacity), the write returns, the new
  \<open>start\<close> is \<open>start + min n cap\<close> if that is at most the capacity and
  \<open>start + min n cap - cap\<close> otherwise, so it is congruent to \<open>start + min n cap\<close>
  modulo the capacity and at most the capacity; the new \<open>size\<close> is
  \<open>min (size + n) cap\<close>; and the store is live again.
\<close>

theorem ram_console_write_header_update:
  assumes "wf_layout cfg g" and "hdr_inv g" and "unat count = length s"
  shows "\<exists>g'. ram_console_write cfg g s count = Some g'
      \<and> unat (start (buffer g'))
          = (if unat (start (buffer g)) + min (length s) (unat (ram_console_buffer_size g))
                 \<le> unat (ram_console_buffer_size g)
             then unat (start (buffer g)) + min (length s) (unat (ram_console_buffer_size g))
             else unat (start (buffer g)) + min (length s) (unat (ram_console_buffer_size g))
                  - unat (ram_console_buffer_size g))
      \<and> unat (start (buffer g')) mod unat (ram_console_buffer_size g)
          = (unat (start (buffer g)) + min (length s) (unat (ram_console_buffer_size g)))
              mod unat (ram_console_buffer_size g)
      \<and> unat (start (buffer g')) \<le> unat (ram_console_buffer_size g)
      \<and> unat (size_f (buffer g'))
          = min (unat (size_f (buffer g)) + length s) (unat (ram_console_buffer_size g))
      \<and> hdr_inv g'"
proof -
  from ram_console_write_header [OF assms]
  obtain g' where g': "ram_console_write cfg g s count = Some g'"
    "ram_console_buffer_size g' = ram_console_buffer_size g"
    "unat (start (buffer g'))
          = write_start (unat (ram_console_buffer_size g)) (unat (start (buffer g)))
              (min (length s) (unat (ram_console_buffer_size g)))"
    "unat (size_f (buffer g'))
          = min (unat (size_f (buffer g)) + length s) (unat (ram_console_buffer_size g))"
    "hdr_inv g'"
    by blast
  have st: "unat (start (buffer g)) \<le> unat (ram_console_buffer_size g)"
    using assms(2) by (simp add: hdr_inv_def)
  have "unat (start (buffer g')) \<le> unat (ram_console_buffer_size g)"
    using g'(5) g'(2) by (simp add: hdr_inv_def)
  with g' write_start_mod [OF st] show ?thesis
    by (auto simp: write_start_def)
qed

text \<open>Witness for C2: the write of 4 bytes to the fresh store of capacity 4.\<close>

theorem ram_console_write_header_update_witness:
  "wf_layout None store4 \<and> hdr_inv store4 \<and> unat (4 :: u32) = length [1, 2, 3, 4 :: byte]
   \<and> (\<exists>g'. ram_console_write None store4 [1, 2, 3, 4] 4 = Some g'
        \<and> unat (start (buffer g')) = 4 \<and> unat (size_f (buffer g')) = 4 \<and> hdr_inv g')"
proof -
  have h: "wf_layout None store4" "hdr_inv store4" "unat (4 :: u32) = length [1, 2, 3, 4 :: byte]"
    by (simp_all add: store4_def wf_layout_def hdr_inv_def globals0_def region_def)
  from ram_console_write_header_update [OF h] h show ?thesis
    by (auto simp add: store4_def globals0_def region_def)
qed

subsection \<open>C3: the recovered log\<close>




subsection \<open>C4: initialisation resets the header\<close>

text \<open>
  C4 as stated fails: a call of \<open>ram_console_init\<close> that aborts returns before the header
  is reset. With parity in blocks of 128 bytes and segments of 16 bytes, a region of 40
  bytes is too small for its parity table; its header, with \<open>start = 7\<close>, is left as it was.
\<close>

theorem init_rearm_counterexample:
  "map_option (start \<circ> buffer \<circ> snd)
     (ram_console_init (Some xor_ecc_128) True globals0 region40 40 None) = Some 7"
  by (simp add: ram_console_init_def Let_def xor_ecc_128_def xor_ecc_def DIV_ROUND_UP_def
      region40_def region_def globals0_def)

text \<open>
  C4, amended: after every call of \<open>ram_console_init\<close> on a region that is large enough
  for the header and the parity table, with the codec available, the call returns 0 and,
  whether or not recovery ran or succeeded (any header in the region, \<open>kmalloc\<close> failing or
  not), the live header reads \<open>sig = RAM_CONSOLE_SIG\<close>, \<open>start = 0\<close>, \<open>size = 0\<close>, the store
  is registered, laid out for writing and empty. (A call that aborts leaves the header as
  it was: C8.)
\<close>

theorem init_rearms:
  assumes "region_ok cfg buf bsz" and "decoder_ok cfg" and "codec_ok cfg"
    and "dest_ok cfg (data_capacity cfg bsz) old_buf"
  shows "\<exists>g'. ram_console_init cfg kmalloc_ok g0 buf bsz old_buf = Some (0, g')
      \<and> sig (buffer g') = RAM_CONSOLE_SIG \<and> start (buffer g') = 0 \<and> size_f (buffer g') = 0
      \<and> registered g' \<and> wf_layout cfg g'
      \<and> unat (ram_console_buffer_size g') = data_capacity cfg bsz
      \<and> logical_content g' = []"
proof -
  from init_effect [OF assms, of kmalloc_ok g0]
  obtain g' where g': "ram_console_init cfg kmalloc_ok g0 buf bsz old_buf = Some (0, g')"
    "sig (buffer g') = RAM_CONSOLE_SIG" "start (buffer g') = 0" "size_f (buffer g') = 0"
    "registered g'" "wf_layout cfg g'"
    "unat (ram_console_buffer_size g') = data_capacity cfg bsz"
    by blast
  moreover have "logical_content g' = []"
    using g'(4) by (simp add: logical_content_def)
  ultimately show ?thesis by blast
qed

text \<open>
  Witness for C4: a region of 40 bytes with a valid header, parity in blocks of 4 bytes,
  and \<open>kmalloc\<close> failing, so that recovery runs and does not succeed.
\<close>

theorem init_rearms_witness:
  "region_ok (Some xor_ecc) region40_valid 40 \<and> decoder_ok (Some xor_ecc)
   \<and> codec_ok (Some xor_ecc) \<and> dest_ok (Some xor_ecc) (data_capacity (Some xor_ecc) 40) None
   \<and> (\<exists>g'. ram_console_init (Some xor_ecc) False globals0 region40_valid 40 None = Some (0, g')
        \<and> sig (buffer g') = RAM_CONSOLE_SIG \<and> start (buffer g') = 0
        \<and> size_f (buffer g') = 0 \<and> registered g')"
proof -
  have h: "region_ok (Some xor_ecc) region40_valid 40" "decoder_ok (Some xor_ecc)"
    "codec_ok (Some xor_ecc)" "dest_ok (Some xor_ecc) (data_capacity (Some xor_ecc) 40) None"
    by (simp_all add: region_ok_xor_40 decoder_ok_xor codec_ok_def dest_ok_def xor_ecc_fields)
  from init_rearms [OF h, of False globals0] h show ?thesis
    by blast
qed

subsection \<open>C6: no recovery from an invalid header\<close>

text \<open>
  C6 as stated fails when parity is compiled in: \<open>ram_console_init\<close> has the decoder
  correct the header in place before it tests the signature. In a region of 40 bytes
  whose stored signature has its first two bytes damaged, so that it is not
  \<open>RAM_CONSOLE_SIG\<close>, while the header's parity segment still holds them, the decoder
  repairs the signature, the header passes the test, and a log of 52 bytes is recovered:
  the 9 bytes of the window and the diagnostic line.
\<close>

theorem init_recovers_repaired_header_counterexample:
  "sig region40_fix \<noteq> RAM_CONSOLE_SIG
   \<and> region_ok (Some prefix_ecc) region40_fix 40 \<and> decoder_ok (Some prefix_ecc)
   \<and> codec_ok (Some prefix_ecc)
   \<and> map_option (unat \<circ> ram_console_old_log_size \<circ> snd)
         (ram_console_init (Some prefix_ecc) True globals0 region40_fix 40 None) = Some 52
   \<and> map_option (map_option (take 9) \<circ> ram_console_old_log \<circ> snd)
         (ram_console_init (Some prefix_ecc) True globals0 region40_fix 40 None)
       = Some (Some [13, 14, 15, 16, 17, 18, 10, 11, 12])"
proof -
  have a: "sig region40_fix \<noteq> RAM_CONSOLE_SIG"
    by (simp add: region40_fix_def region_def RAM_CONSOLE_SIG_def)
  have b: "region_ok (Some prefix_ecc) region40_fix 40"
    by (simp add: region_ok_def region40_fix_def region_def prefix_ecc_fields ecc_ok_def
        reservation_def nblocks_def exI [of _ 2])
  have c: "decoder_ok (Some prefix_ecc)" "codec_ok (Some prefix_ecc)"
    by (simp_all add: decoder_ok_def codec_ok_def prefix_ecc_def min_def)
  have d: "map_option (unat \<circ> ram_console_old_log_size \<circ> snd)
         (ram_console_init (Some prefix_ecc) True globals0 region40_fix 40 None) = Some 52"
    unfolding init_region40_fix by simp
  have e: "map_option (map_option (take 9) \<circ> ram_console_old_log \<circ> snd)
         (ram_console_init (Some prefix_ecc) True globals0 region40_fix 40 None)
       = Some (Some [13, 14, 15, 16, 17, 18, 10, 11, 12])"
    unfolding init_region40_fix by simp
  from a b c d e show ?thesis by blast
qed

text \<open>
  C6, amended: for every region that is large enough, whose header as \<open>ram_console_init\<close>
  tests it (the stored header without parity; the header after the decoder's correction
  of it when parity is compiled in) has a signature other than \<open>RAM_CONSOLE_SIG\<close>, or
  \<open>size > data_capacity\<close>, or \<open>start > size\<close>, initialisation performs no recovery: the old
  log and its length stay what they were (\<open>NULL\<close> and 0 when the driver has not run
  before), and initialisation goes on as usual: it resets the header, registers the
  console and returns 0.
\<close>

theorem init_skips_recovery:
  assumes "region_ok cfg buf bsz" and "decoder_ok cfg" and "codec_ok cfg"
    and "dest_ok cfg (data_capacity cfg bsz) old_buf"
    and "sig (header_seen cfg buf bsz) \<noteq> RAM_CONSOLE_SIG
         \<or> data_capacity cfg bsz < unat (size_f (header_seen cfg buf bsz))
         \<or> size_f (header_seen cfg buf bsz) < start (header_seen cfg buf bsz)"
  shows "\<exists>g'. ram_console_init cfg kmalloc_ok g0 buf bsz old_buf = Some (0, g')
      \<and> ram_console_old_log g' = ram_console_old_log g0
      \<and> ram_console_old_log_size g' = ram_console_old_log_size g0
      \<and> registered g'
      \<and> sig (buffer g') = RAM_CONSOLE_SIG \<and> start (buffer g') = 0 \<and> size_f (buffer g') = 0"
proof -
  from init_effect [OF assms(1-4), of kmalloc_ok g0]
  obtain g' where g': "ram_console_init cfg kmalloc_ok g0 buf bsz old_buf = Some (0, g')"
    "sig (buffer g') = RAM_CONSOLE_SIG" "start (buffer g') = 0" "size_f (buffer g') = 0"
    "registered g'"
    "unat (ram_console_buffer_size g') = data_capacity cfg bsz"
    and lg: "if valid_header (header_seen cfg buf bsz) (ram_console_buffer_size g')
            \<and> (old_buf \<noteq> None \<or> kmalloc_ok)
          then recovered cfg (header_seen cfg buf bsz) g'
          else ram_console_old_log g' = ram_console_old_log g0
               \<and> ram_console_old_log_size g' = ram_console_old_log_size g0"
    by blast
  have "\<not> valid_header (header_seen cfg buf bsz) (ram_console_buffer_size g')"
    using assms(5) g'(6) by (auto simp: valid_header_def word_le_nat_alt word_less_nat_alt)
  with lg have "ram_console_old_log g' = ram_console_old_log g0
               \<and> ram_console_old_log_size g' = ram_console_old_log_size g0"
    by simp
  with g' show ?thesis by blast
qed

text \<open>
  Witness for C6: a region of 40 bytes whose signature is 0, with parity and a decoder
  that leaves the header as it is; the old log stays \<open>NULL\<close> and its length 0.
\<close>

theorem init_skips_recovery_witness:
  "region_ok (Some xor_ecc) region40 40 \<and> decoder_ok (Some xor_ecc) \<and> codec_ok (Some xor_ecc)
   \<and> dest_ok (Some xor_ecc) (data_capacity (Some xor_ecc) 40) None
   \<and> sig (header_seen (Some xor_ecc) region40 40) \<noteq> RAM_CONSOLE_SIG
   \<and> (\<exists>g'. ram_console_init (Some xor_ecc) True globals0 region40 40 None = Some (0, g')
        \<and> ram_console_old_log g' = None \<and> ram_console_old_log_size g' = 0
        \<and> registered g')"
proof -
  have h: "region_ok (Some xor_ecc) region40 40" "decoder_ok (Some xor_ecc)"
    "codec_ok (Some xor_ecc)" "dest_ok (Some xor_ecc) (data_capacity (Some xor_ecc) 40) None"
    by (simp_all add: region_ok_def ecc_ok_xor reservation_def nblocks_def region40_def
        region_def xor_ecc_fields decoder_ok_xor codec_ok_def dest_ok_def)
  have s: "sig (header_seen (Some xor_ecc) region40 40) \<noteq> RAM_CONSOLE_SIG"
    unfolding header_seen_xor_40
    by (simp add: region40_def region_def RAM_CONSOLE_SIG_def)
  then have d: "sig (header_seen (Some xor_ecc) region40 40) \<noteq> RAM_CONSOLE_SIG
         \<or> data_capacity (Some xor_ecc) 40
             < unat (size_f (header_seen (Some xor_ecc) region40 40))
         \<or> size_f (header_seen (Some xor_ecc) region40 40)
             < start (header_seen (Some xor_ecc) region40 40)"
    by (rule disjI1)
  from init_skips_recovery [OF h d, of True globals0]
  obtain g' where "ram_console_init (Some xor_ecc) True globals0 region40 40 None = Some (0, g')"
    "ram_console_old_log g' = None" "ram_console_old_log_size g' = 0" "registered g'"
    by (auto simp add: globals0_def)
  with h s show ?thesis by blast
qed

subsection \<open>C7: reading the old log\<close>

text \<open>
  C7: for every offset \<open>pos \<ge> 0\<close> and maximum length \<open>len\<close>, when the copy to the caller's
  buffer succeeds, \<open>ram_console_read_old\<close> returns \<open>min len (recovered_length - pos)\<close>,
  delivers that many bytes of the recovered log from offset \<open>pos\<close> on, and advances the
  offset by as much; at or past the end this is zero bytes. The function reads the
  globals and does not change them (it returns none), so that the bytes it exposes are
  the same at every call with the same offset. (The return type \<open>ssize_t\<close> holds the count
  for logs of less than \<open>2 ^ 31\<close> bytes.)
\<close>

theorem read_old_window:
  assumes ok: "old_log_ok g" and small: "length (recovered_log g) < 2 ^ 31" and pos: "0 \<le> pos"
  shows "ram_console_read_old g True len pos
           = Some (int (min (unat len) (length (recovered_log g) - nat pos)),
                   take (min (unat len) (length (recovered_log g) - nat pos))
                     (drop (nat pos) (recovered_log g)),
                   pos + int (min (unat len) (length (recovered_log g) - nat pos)))"
proof -
  define L where "L = unat (ram_console_old_log_size g)"
  have lr: "length (recovered_log g) = L"
    using ok by (simp add: length_recovered_log L_def)
  have uL: "uint (ram_console_old_log_size g) = int L"
    by (simp add: L_def)
  show ?thesis
  proof (cases "pos \<ge> int L")
    case True
    then have "length (recovered_log g) - nat pos = 0"
      using lr by simp
    with True show ?thesis
      by (simp add: ram_console_read_old_def uL)
  next
    case False
    then have lt: "nat pos < L" using pos by simp
    then obtain log where log: "ram_console_old_log g = Some log" and ll: "L \<le> length log"
      using ok by (auto simp: old_log_ok_def L_def split: option.splits)
    have rl: "recovered_log g = take L log"
      by (simp add: recovered_log_def log L_def)
    define n where "n = min (unat len) (L - nat pos)"
    have "L < 2 ^ 32" unfolding L_def by (rule unat_lt32)
    then have "int L < 2 ^ 32" by simp
    then have "int L - pos < 2 ^ 32"
      using pos by linarith
    then have "unat (word_of_int (int L - pos) :: u32) = nat (int L - pos)"
      using False by (intro unat_word_of_int_small) simp_all
    also have "\<dots> = L - nat pos" using pos by simp
    finally have ucount: "unat (min len (word_of_int (int L - pos))) = n"
      by (simp add: unat_min n_def)
    have nL: "n \<le> L - nat pos" by (simp add: n_def)
    then have "n < 2 ^ 31" using small lr by simp
    then have scount: "sint (min len (word_of_int (int L - pos))) = int n"
      using ucount by (simp add: sint_small)
    have pk: "peek log (nat pos) n = Some (take n (drop (nat pos) log))"
      using nL lt ll by (simp add: peek_def)
    have nf: "word_of_int (int L - pos) = (word_of_nat L - word_of_int pos :: u32)"
      by simp
    have run: "ram_console_read_old g True len pos
        = Some (int n, take n (drop (nat pos) log), pos + int n)"
      using False pos
      by (simp add: ram_console_read_old_def uL log ucount [unfolded nf] scount [unfolded nf]
          pk Let_def)
    have "take n (drop (nat pos) (recovered_log g)) = take n (drop (nat pos) log)"
      using nL by (simp add: rl drop_take)
    with run show ?thesis
      unfolding lr n_def by simp
  qed
qed

text \<open>
  Witness for C7: of a recovered log of 5 bytes, a read of at most 100 bytes at offset 3
  returns the last 2 and moves the offset to 5.
\<close>

theorem read_old_window_witness:
  "old_log_ok recovered5 \<and> length (recovered_log recovered5) < 2 ^ 31 \<and> (0::int) \<le> 3
   \<and> ram_console_read_old recovered5 True 100 3 = Some (2, [10, 11], 5)"
proof -
  have h: "old_log_ok recovered5" "length (recovered_log recovered5) < 2 ^ 31"
    by (simp_all add: old_log_ok_def rl5, simp add: recovered5_def globals0_def)
  have p: "(0::int) \<le> 3" by simp
  have r: "ram_console_read_old recovered5 True 100 3 = Some (2, [10, 11], 5)"
    unfolding read_old_window [OF h p, of 100] rl5 by simp
  show ?thesis using h p r by blast
qed

subsection \<open>C8: a region that is too small\<close>

text \<open>
  C8: for every total capacity for which the header does not fit (\<open>buffer_size < 12\<close>) or,
  with parity, the parity reservation exceeds what is left after the header (and the
  reservation itself can be computed in 32 bits), \<open>ram_console_init\<close> returns at once:
  only \<open>ram_console_buffer\<close> and \<open>ram_console_buffer_size\<close> have been assigned, the console
  is not registered (so that no write is ever dispatched to the store), the region is as
  it was (no recovery, no header reset), the old log is untouched, and the call returns
  normally.
\<close>

theorem init_aborts_on_insufficient_capacity:
  assumes "insufficient_capacity cfg bsz" and "reservation_fits cfg bsz"
  shows "\<exists>g'. ram_console_init cfg kmalloc_ok g0 buf bsz old_buf = Some (0, g')
      \<and> registered g' = registered g0 \<and> buffer g' = buf
      \<and> ram_console_old_log g' = ram_console_old_log g0
      \<and> ram_console_old_log_size g' = ram_console_old_log_size g0
      \<and> ram_console_rs_decoder g' = ram_console_rs_decoder g0"
proof -
  from init_abort [OF assms, of kmalloc_ok g0 buf old_buf]
  obtain cap where "ram_console_init cfg kmalloc_ok g0 buf bsz old_buf
           = Some (0, g0\<lparr>buffer := buf, ram_console_buffer_size := cap\<rparr>)"
    by blast
  then show ?thesis by simp
qed

text \<open>
  Witness for C8: 40 bytes with parity in blocks of 128 bytes and segments of 16 bytes:
  28 bytes are left after the header and 32 would be reserved.
\<close>

theorem init_aborts_on_insufficient_capacity_witness:
  "insufficient_capacity (Some xor_ecc_128) 40 \<and> reservation_fits (Some xor_ecc_128) 40
   \<and> (\<exists>g'. ram_console_init (Some xor_ecc_128) True globals0 region40_valid 40 None
               = Some (0, g')
        \<and> \<not> registered g' \<and> buffer g' = region40_valid \<and> ram_console_old_log g' = None)"
proof -
  have h: "insufficient_capacity (Some xor_ecc_128) 40" "reservation_fits (Some xor_ecc_128) 40"
    by (simp_all add: insufficient_capacity_def reservation_fits_def reservation_def
        nblocks_def ecc_ok_xor_128 xor_ecc_fields)
  from init_aborts_on_insufficient_capacity [OF h, of True globals0 region40_valid None]
  show ?thesis
    using h by (auto simp add: globals0_def)
qed

subsection \<open>C10: the return value of initialisation\<close>

text \<open>
  C10: \<open>ram_console_init\<close> returns, and returns 0, on each of its paths: on the two that
  abort for insufficient capacity (the header does not fit, or the parity reservation is
  more than what is left), on the one that aborts because \<open>init_rs\<close> fails, and on the one
  that initialises the store. On the aborting paths the console is not registered by the
  call and the old log is left as it was; on the last it is registered. The probe, which
  calls \<open>ram_console_init\<close> with no buffer of the caller's once it has mapped the region,
  returns the same value and leaves the same globals, so that it reports 0 for a store
  that is not registered as for one that is.
\<close>

theorem init_always_returns_0:
  assumes "insufficient_capacity cfg bsz \<and> reservation_fits cfg bsz
           \<or> region_ok cfg buf bsz \<and> \<not> codec_ok cfg
           \<or> region_ok cfg buf bsz \<and> codec_ok cfg \<and> decoder_ok cfg
               \<and> dest_ok cfg (data_capacity cfg bsz) old_buf"
  shows "\<exists>g'. ram_console_init cfg kmalloc_ok g0 buf bsz old_buf = Some (0, g')
      \<and> (insufficient_capacity cfg bsz \<or> \<not> codec_ok cfg
            \<longrightarrow> registered g' = registered g0
                \<and> ram_console_old_log g' = ram_console_old_log g0)
      \<and> (\<not> insufficient_capacity cfg bsz \<and> codec_ok cfg \<longrightarrow> registered g')
      \<and> (\<forall>pdev ioremap res mem_size.
            old_buf = None \<and> probe_resources pdev = Inr (Some res, Some mem_size)
            \<and> mem_size \<noteq> 0 \<and> res_flags res AND IORESOURCE_MEM \<noteq> 0
            \<and> bsz = res_end res - res_start res + 1 - PAGE_SIZE * 10
            \<and> ioremap (res_start res) bsz = Some buf
            \<longrightarrow> ram_console_driver_probe cfg kmalloc_ok ioremap g0 pdev = Some (0, g'))"
proof -
  have init: "\<exists>g'. ram_console_init cfg kmalloc_ok g0 buf bsz old_buf = Some (0, g')
      \<and> (insufficient_capacity cfg bsz \<or> \<not> codec_ok cfg
            \<longrightarrow> registered g' = registered g0
                \<and> ram_console_old_log g' = ram_console_old_log g0)
      \<and> (\<not> insufficient_capacity cfg bsz \<and> codec_ok cfg \<longrightarrow> registered g')"
    using assms
  proof (elim disjE conjE)
    assume "insufficient_capacity cfg bsz" "reservation_fits cfg bsz"
    from init_abort [OF this, of kmalloc_ok g0 buf old_buf] this(1)
    show ?thesis by auto
  next
    assume reg: "region_ok cfg buf bsz" and rs: "\<not> codec_ok cfg"
    then obtain e where e: "cfg = Some e" "\<not> init_rs_ok e"
      by (auto simp: codec_ok_def split: option.splits)
    from init_codec_failure [OF reg [unfolded e(1)] e(2), of kmalloc_ok g0 old_buf] rs
    show ?thesis unfolding e(1) by auto
  next
    assume reg: "region_ok cfg buf bsz" and rs: "codec_ok cfg" and dec: "decoder_ok cfg"
      and dst: "dest_ok cfg (data_capacity cfg bsz) old_buf"
    from init_effect [OF reg dec rs dst, of kmalloc_ok g0] region_ok_sufficient [OF reg] rs
    show ?thesis by blast
  qed
  then obtain g' where g': "ram_console_init cfg kmalloc_ok g0 buf bsz old_buf = Some (0, g')"
    "insufficient_capacity cfg bsz \<or> \<not> codec_ok cfg
            \<longrightarrow> registered g' = registered g0
                \<and> ram_console_old_log g' = ram_console_old_log g0"
    "\<not> insufficient_capacity cfg bsz \<and> codec_ok cfg \<longrightarrow> registered g'"
    by blast
  have "ram_console_driver_probe cfg kmalloc_ok ioremap g0 pdev = Some (0, g')"
    if "old_buf = None" "probe_resources pdev = Inr (Some res, Some mem_size)"
      "mem_size \<noteq> 0" "res_flags res AND IORESOURCE_MEM \<noteq> 0"
      "bsz = res_end res - res_start res + 1 - PAGE_SIZE * 10"
      "ioremap (res_start res) bsz = Some buf"
    for pdev ioremap res mem_size
  proof -
    have "ioremap (res_start res) (res_end res - res_start res + 1 - PAGE_SIZE * 10) = Some buf"
      using that(5,6) by simp
    with that(2-4)
    have "ram_console_driver_probe cfg kmalloc_ok ioremap g0 pdev
           = ram_console_init cfg kmalloc_ok g0 buf
               (res_end res - res_start res + 1 - PAGE_SIZE * 10) None"
      by (rule probe_returns_init)
    with g'(1) that(1,5) show ?thesis by simp
  qed
  with g' show ?thesis by blast
qed

text \<open>
  Witness for C10: on the region of 40 bytes, with blocks of 128 bytes the call aborts,
  with blocks of 4 bytes it initialises the store; both return 0, the console is
  registered in the second only, and the probe of a device with that region returns 0 in
  both.
\<close>

theorem init_always_returns_0_witness:
  "insufficient_capacity (Some xor_ecc_128) 40 \<and> reservation_fits (Some xor_ecc_128) 40
   \<and> region_ok (Some xor_ecc) region40_valid 40 \<and> codec_ok (Some xor_ecc)
   \<and> decoder_ok (Some xor_ecc)
   \<and> dest_ok (Some xor_ecc) (data_capacity (Some xor_ecc) 40) None
   \<and> (\<exists>g'. ram_console_init (Some xor_ecc_128) True globals0 region40_valid 40 None
               = Some (0, g')
         \<and> \<not> registered g'
         \<and> ram_console_driver_probe (Some xor_ecc_128) True ioremap40 globals0 pdev40
               = Some (0, g'))
   \<and> (\<exists>g'. ram_console_init (Some xor_ecc) True globals0 region40_valid 40 None = Some (0, g')
         \<and> registered g'
         \<and> ram_console_driver_probe (Some xor_ecc) True ioremap40 globals0 pdev40
               = Some (0, g'))"
proof -
  have a: "insufficient_capacity (Some xor_ecc_128) 40" "reservation_fits (Some xor_ecc_128) 40"
    by (simp_all add: insufficient_capacity_def reservation_fits_def reservation_def
        nblocks_def ecc_ok_xor_128 xor_ecc_fields)
  have h: "region_ok (Some xor_ecc) region40_valid 40" "codec_ok (Some xor_ecc)"
    "decoder_ok (Some xor_ecc)" "dest_ok (Some xor_ecc) (data_capacity (Some xor_ecc) 40) None"
    by (simp_all add: region_ok_xor_40 decoder_ok_xor codec_ok_def dest_ok_def xor_ecc_fields)
  have c128: "codec_ok (Some xor_ecc_128)"
    by (simp add: codec_ok_def xor_ecc_fields)
  have p: "probe_resources pdev40
             = Inr (Some \<lparr>res_start = 0, res_end = 40999, res_flags = IORESOURCE_MEM\<rparr>,
                    Some 41000)"
    "(41000 :: size_t) \<noteq> 0"
    "res_flags \<lparr>res_start = 0, res_end = 40999, res_flags = IORESOURCE_MEM\<rparr>
       AND IORESOURCE_MEM \<noteq> 0"
    "(40 :: size_t) = res_end \<lparr>res_start = 0, res_end = 40999, res_flags = IORESOURCE_MEM\<rparr>
       - res_start \<lparr>res_start = 0, res_end = 40999, res_flags = IORESOURCE_MEM\<rparr> + 1
       - PAGE_SIZE * 10"
    "ioremap40 (res_start \<lparr>res_start = 0, res_end = 40999, res_flags = IORESOURCE_MEM\<rparr>) 40
       = Some region40_valid"
    by (simp_all add: probe_resources_def pdev40_def IORESOURCE_MEM_def PAGE_SIZE_def
        ioremap40_def)
  have d1: "insufficient_capacity (Some xor_ecc_128) 40 \<and> reservation_fits (Some xor_ecc_128) 40
           \<or> region_ok (Some xor_ecc_128) region40_valid 40 \<and> \<not> codec_ok (Some xor_ecc_128)
           \<or> region_ok (Some xor_ecc_128) region40_valid 40 \<and> codec_ok (Some xor_ecc_128)
               \<and> decoder_ok (Some xor_ecc_128)
               \<and> dest_ok (Some xor_ecc_128) (data_capacity (Some xor_ecc_128) 40) None"
    using a by blast
  have d2: "insufficient_capacity (Some xor_ecc) 40 \<and> reservation_fits (Some xor_ecc) 40
           \<or> region_ok (Some xor_ecc) region40_valid 40 \<and> \<not> codec_ok (Some xor_ecc)
           \<or> region_ok (Some xor_ecc) region40_valid 40 \<and> codec_ok (Some xor_ecc)
               \<and> decoder_ok (Some xor_ecc)
               \<and> dest_ok (Some xor_ecc) (data_capacity (Some xor_ecc) 40) None"
    using h by blast
  from init_always_returns_0 [OF d1, of True globals0] a(1) p
  have r1: "\<exists>g'. ram_console_init (Some xor_ecc_128) True globals0 region40_valid 40 None
               = Some (0, g')
         \<and> \<not> registered g'
         \<and> ram_console_driver_probe (Some xor_ecc_128) True ioremap40 globals0 pdev40
               = Some (0, g')"
    by (fastforce simp: globals0_def)
  from init_always_returns_0 [OF d2, of True globals0] region_ok_sufficient [OF h(1)] h(2) p
  have r2: "\<exists>g'. ram_console_init (Some xor_ecc) True globals0 region40_valid 40 None
               = Some (0, g')
         \<and> registered g'
         \<and> ram_console_driver_probe (Some xor_ecc) True ioremap40 globals0 pdev40
               = Some (0, g')"
    by fastforce
  from a h r1 r2 show ?thesis by blast
qed

subsection \<open>C5: the example scenario\<close>

text \<open>
  C5 as stated fails. Of a total capacity of 1024 bytes the header takes 12, so that the
  data capacity is 1012. After \<open>AAAA\<close> and 1024 bytes of \<open>B\<close> the logical content is 1012
  bytes of \<open>B\<close>, \<open>size\<close> is 1012, and \<open>start\<close> is 4: the second write is cut to its last
  1012 bytes, 1008 of them go to positions 4 to 1011 and the last 4 to positions 0 to 3.
  The claim gives 1024 bytes of \<open>B\<close>, \<open>size = 1024\<close> and \<open>start = 0\<close>.
\<close>

theorem example_scenario_counterexample:
  "ram_console_init None True globals0 (region 0 0 0 (replicate 1012 0)) 1024 None
     = Some (0, store1012)
   \<and> map_option (unat \<circ> start \<circ> buffer)
         (ram_console_writes None store1012 [text_AAAA, text_B1024]) = Some 4
   \<and> map_option (unat \<circ> size_f \<circ> buffer)
         (ram_console_writes None store1012 [text_AAAA, text_B1024]) = Some 1012
   \<and> map_option logical_content
         (ram_console_writes None store1012 [text_AAAA, text_B1024])
       = Some (replicate 1012 0x42)"
proof -
  have "ram_console_init None True globals0 (region 0 0 0 (replicate 1012 0)) 1024 None
     = Some (0, store1012)"
    by (simp add: init_simps store1012_def)
  moreover from scenario_writes [OF store1012_facts]
  obtain g' where "ram_console_writes None store1012 [text_AAAA, text_B1024] = Some g'"
    "unat (start (buffer g')) = 4" "unat (size_f (buffer g')) = 1012"
    "logical_content g' = replicate 1012 0x42"
    by blast
  ultimately show ?thesis by simp
qed

text \<open>
  C5, amended: in the scenario without parity, with a total capacity of 1024 bytes and a
  header of 12 bytes, whatever the region held before, initialisation returns, both writes
  return, and writing \<open>AAAA\<close> and then 1024 bytes of \<open>B\<close> leaves the logical content equal to
  exactly 1012 bytes of \<open>B\<close> (the \<open>AAAA\<close> fully evicted), with \<open>start = 4\<close> and
  \<open>size = 1012\<close>.
\<close>

theorem example_scenario:
  assumes "length d = 1012"
  shows "\<exists>g g'. ram_console_init None kmalloc_ok globals0 (region sg st sz d) 1024 None
                  = Some (0, g)
      \<and> ram_console_writes None g [text_AAAA, text_B1024] = Some g'
      \<and> unat (start (buffer g')) = 4 \<and> unat (size_f (buffer g')) = 1012
      \<and> logical_content g' = replicate 1012 0x42"
proof -
  have h: "region_ok None (region sg st sz d) 1024" "decoder_ok None" "codec_ok None"
    "dest_ok None (data_capacity None 1024) None"
    using assms
    by (simp_all add: region_ok_def decoder_ok_def codec_ok_def dest_ok_def region_def)
  from init_effect [OF h, of kmalloc_ok globals0]
  obtain g where g: "ram_console_init None kmalloc_ok globals0 (region sg st sz d) 1024 None
                  = Some (0, g)"
    "start (buffer g) = 0" "size_f (buffer g) = 0" "wf_layout None g"
    "unat (ram_console_buffer_size g) = data_capacity None 1024"
    by blast
  have "unat (ram_console_buffer_size g) = 1012"
    using g(5) by (simp add: data_capacity_def)
  from scenario_writes [OF g(4) g(2) g(3) this] g(1) show ?thesis
    by blast
qed

text \<open>Witness for C5: the region that holds zeros.\<close>

theorem example_scenario_witness:
  "length (replicate 1012 (0::byte)) = 1012
   \<and> (\<exists>g g'. ram_console_init None True globals0 (region 0 0 0 (replicate 1012 0)) 1024 None
                  = Some (0, g)
      \<and> ram_console_writes None g [text_AAAA, text_B1024] = Some g'
      \<and> unat (start (buffer g')) = 4 \<and> unat (size_f (buffer g')) = 1012
      \<and> logical_content g' = replicate 1012 0x42)"
proof -
  have h: "length (replicate 1012 (0::byte)) = 1012" by simp
  from example_scenario [OF h, of True 0 0 0] h show ?thesis
    by blast
qed

subsection \<open>C9: what a write changes\<close>

text \<open>
  C9 as stated fails. The loop of \<open>ram_console_update\<close> is a \<open>do ... while\<close>: it encodes
  the block that contains \<open>start\<close> before it tests whether the written range reaches it,
  so a write of no bytes encodes that block again. In the store with parity that
  \<open>ram_console_init\<close> leaves in a region of 40 bytes (12 bytes of data, \<open>start = 0\<close>, the
  parity area as it was found), a write of 0 bytes changes byte 12 of the array, the first
  byte of the parity segment of block 0, from \<open>0xEE\<close> to 0, although no position is
  written and no block intersects the empty range.
\<close>

theorem write_frame_counterexample:
  "ram_console_init (Some xor_ecc) True globals0 region40 40 None = Some (0, store_ecc)
   \<and> unat (ram_console_buffer_size store_ecc) = 12 \<and> unat (start (buffer store_ecc)) = 0
   \<and> data (buffer store_ecc) ! 12 = 0xEE
   \<and> map_option (\<lambda>g. data (buffer g) ! 12) (ram_console_write (Some xor_ecc) store_ecc [] 0)
       = Some 0
   \<and> \<not> spec_may_change (Some xor_ecc) 12 0 0 12"
proof -
  have c: "data (buffer store_ecc) ! 12 = 0xEE"
    by (simp add: store_ecc_def region_def)
  have w: "map_option (\<lambda>g. data (buffer g) ! 12)
             (ram_console_write (Some xor_ecc) store_ecc [] 0) = Some 0"
    unfolding write_store_ecc_empty by (simp add: region_def)
  have d: "\<not> spec_may_change (Some xor_ecc) 12 0 0 12"
    by (simp add: spec_may_change_def xor_ecc_fields block_written_def
        written_pos_def nblocks_def)
  from init_store_ecc store_ecc_facts(2,3) c w d show ?thesis by blast
qed

text \<open>
  C9, amended: for every write of \<open>n\<close> bytes, \<open>n\<close> at most the data capacity, to a store
  whose \<open>start\<close> is at most the capacity, the write returns, changes no global but the
  region, keeps the length of the array, and leaves unchanged every byte of the data area
  and of the parity area except: the data bytes at the positions
  \<open>start .. start + n - 1\<close> taken circularly, the parity segments of the blocks that
  intersect that range, the parity segment of the block at index \<open>start div block_size\<close>
  (encoded again also when the range does not reach it: \<open>n = 0\<close>, or \<open>start\<close> equal to
  the capacity), and the header's parity segment. When \<open>0 < n\<close> and \<open>start\<close> is below the
  capacity the block at \<open>start div block_size\<close> intersects the range, and the bytes that
  may change are those of the claim (\<open>may_change_spec\<close>).
\<close>

theorem ram_console_write_frame:
  assumes wf: "wf_layout cfg g"
    and inv: "unat (start (buffer g)) \<le> unat (ram_console_buffer_size g)"
    and cnt: "unat count = length s"
    and n: "length s \<le> unat (ram_console_buffer_size g)"
  shows "\<exists>g'. ram_console_write cfg g s count = Some g'
      \<and> g' = g\<lparr>buffer := buffer g'\<rparr>
      \<and> length (data (buffer g')) = length (data (buffer g))
      \<and> (\<forall>i<length (data (buffer g)).
            \<not> may_change cfg (unat (ram_console_buffer_size g)) (unat (start (buffer g)))
                 (length s) i
            \<longrightarrow> data (buffer g') ! i = data (buffer g) ! i)"
proof -
  define cap where "cap = unat (ram_console_buffer_size g)"
  define st where "st = unat (start (buffer g))"
  define dat where "dat = data (buffer g)"
  have mn: "min (length s) cap = length s" using n by (simp add: cap_def)
  have cl: "clamp cap s = s" using n by (simp add: clamp_def cap_def)
  have capn: "cap \<le> length dat"
    using wf by (auto simp: wf_layout_def Let_def cap_def dat_def split: option.splits)
  from ram_console_write_effect [OF wf inv cnt]
  obtain g' where g': "ram_console_write cfg g s count = Some g'"
    "g' = g\<lparr>buffer := buffer g'\<rparr>"
    "length (data (buffer g')) = length dat"
    "take cap (data (buffer g')) = write_data cap st (take cap dat) s"
    and par: "\<forall>i<length dat. cap \<le> i \<and> write_keeps cfg cap st (length s) i
            \<longrightarrow> data (buffer g') ! i = dat ! i"
    unfolding cap_def [symmetric] st_def [symmetric] dat_def [symmetric] mn cl
    by blast
  have "data (buffer g') ! i = dat ! i"
    if i: "i < length dat" and nm: "\<not> may_change cfg cap st (length s) i" for i
  proof (cases "i < cap")
    case True
    with nm have nw: "\<not> written_pos cap st (length s) i"
      by (simp add: may_change_def)
    have "data (buffer g') ! i = take cap (data (buffer g')) ! i"
      using True by simp
    also have "\<dots> = write_data cap st (take cap dat) s ! i"
      by (simp only: g'(4))
    also have "\<dots> = take cap dat ! i"
      using capn inv n True nw
      by (intro write_data_nth) (simp_all add: cap_def st_def)
    also have "\<dots> = dat ! i" using True by simp
    finally show ?thesis .
  next
    case False
    then have ge: "cap \<le> i" by simp
    have "write_keeps cfg cap st (length s) i"
    proof (cases cfg)
      case None
      then show ?thesis by (simp add: write_keeps_def hdr_slot_def loop_keeps_def)
    next
      case (Some e)
      with wf have ok: "ecc_ok e" by (simp add: wf_layout_def Let_def)
      from ok _ _ ge nm [unfolded Some] show ?thesis
        unfolding Some
        by (rule may_change_keeps) (use inv n in \<open>simp_all add: cap_def st_def\<close>)
    qed
    with par i ge show ?thesis by blast
  qed
  with g'(1-3) show ?thesis
    unfolding cap_def st_def dat_def by blast
qed

text \<open>
  Witness for C9: a write of 3 bytes at \<open>start = 0\<close> to the store with parity of capacity
  12 leaves byte 3 of the data area and byte 14, in the parity segment of block 1, as they
  were.
\<close>

theorem ram_console_write_frame_witness:
  "wf_layout (Some xor_ecc) store_ecc
   \<and> unat (start (buffer store_ecc)) \<le> unat (ram_console_buffer_size store_ecc)
   \<and> unat (3 :: u32) = length [1, 2, 4 :: byte]
   \<and> length [1, 2, 4 :: byte] \<le> unat (ram_console_buffer_size store_ecc)
   \<and> (\<exists>g'. ram_console_write (Some xor_ecc) store_ecc [1, 2, 4] 3 = Some g'
        \<and> data (buffer g') ! 3 = 0xEE \<and> data (buffer g') ! 14 = 0xEE)"
proof -
  have h: "wf_layout (Some xor_ecc) store_ecc"
    "unat (start (buffer store_ecc)) \<le> unat (ram_console_buffer_size store_ecc)"
    "unat (3 :: u32) = length [1, 2, 4 :: byte]"
    "length [1, 2, 4 :: byte] \<le> unat (ram_console_buffer_size store_ecc)"
    by (simp_all add: store_ecc_facts)
  have n3: "\<not> may_change (Some xor_ecc) 12 0 3 3"
    by (auto simp: may_change_def written_pos_def)
  have n14: "\<not> may_change (Some xor_ecc) 12 0 3 14"
    by (auto simp: may_change_def written_pos_def block_written_def xor_ecc_fields nblocks_def)
  have d: "data (buffer store_ecc) ! 3 = 0xEE" "data (buffer store_ecc) ! 14 = 0xEE"
    by (simp_all add: store_ecc_def region_def)
  from ram_console_write_frame [OF h]
  obtain g' where g': "ram_console_write (Some xor_ecc) store_ecc [1, 2, 4] 3 = Some g'"
    and fr: "\<forall>i<28. \<not> may_change (Some xor_ecc) 12 0 (length [1, 2, 4 :: byte]) i
               \<longrightarrow> data (buffer g') ! i = data (buffer store_ecc) ! i"
    unfolding store_ecc_facts(2-4) by blast
  have len: "length [1, 2, 4 :: byte] = 3" by simp
  from fr [unfolded len] n3 n14 d have "data (buffer g') ! 3 = 0xEE" "data (buffer g') ! 14 = 0xEE"
    by auto
  with g' h show ?thesis by blast
qed

end
